theory Spec2Isabelle
  imports Main "HOL-Library.Word" "HOL-Library.Multiset"
begin

unbundle bit_operations_syntax

chapter \<open>Vim's spelling suggestions (spellsuggest.c): a shallow embedding\<close>

text \<open>
  The definitions of this theory follow \<^verbatim>\<open>src/spellsuggest.c\<close> function by function and
  keep its names. C \<^verbatim>\<open>int\<close> values are modelled as \<^typ>\<open>int\<close>: signed overflow is undefined
  in C, so the model agrees with the code on every execution whose behaviour C defines.
  A NUL-terminated string is the list of its bytes before the terminator.
\<close>

section \<open>Definitions\<close>

subsection \<open>Score constants and the rescoring macros\<close>

definition SCORE_SPLIT :: int where "SCORE_SPLIT = 149"
definition SCORE_SPLIT_NO :: int where "SCORE_SPLIT_NO = 249"
definition SCORE_ICASE :: int where "SCORE_ICASE = 52"
definition SCORE_REGION :: int where "SCORE_REGION = 200"
definition SCORE_RARE :: int where "SCORE_RARE = 180"
definition SCORE_SWAP :: int where "SCORE_SWAP = 75"
definition SCORE_SWAP3 :: int where "SCORE_SWAP3 = 110"
definition SCORE_REP :: int where "SCORE_REP = 65"
definition SCORE_SUBST :: int where "SCORE_SUBST = 93"
definition SCORE_SIMILAR :: int where "SCORE_SIMILAR = 33"
definition SCORE_SUBCOMP :: int where "SCORE_SUBCOMP = 33"
definition SCORE_DEL :: int where "SCORE_DEL = 94"
definition SCORE_DELDUP :: int where "SCORE_DELDUP = 66"
definition SCORE_DELCOMP :: int where "SCORE_DELCOMP = 28"
definition SCORE_INS :: int where "SCORE_INS = 96"
definition SCORE_INSDUP :: int where "SCORE_INSDUP = 67"
definition SCORE_INSCOMP :: int where "SCORE_INSCOMP = 30"
definition SCORE_NONWORD :: int where "SCORE_NONWORD = 103"
definition SCORE_MAXINIT :: int where "SCORE_MAXINIT = 350"
definition SCORE_BIG :: int where "SCORE_BIG = SCORE_INS * 3"
definition SCORE_MAXMAX :: int where "SCORE_MAXMAX = 999999"

text \<open>C's integer division truncates towards zero; HOL's \<open>div\<close> rounds down.\<close>

definition c_div :: "int \<Rightarrow> int \<Rightarrow> int" where
  "c_div a b = (if (a < 0) = (b < 0) then \<bar>a\<bar> div \<bar>b\<bar> else - (\<bar>a\<bar> div \<bar>b\<bar>))"

definition RESCORE :: "int \<Rightarrow> int \<Rightarrow> int" where
  "RESCORE word_score sound_score = c_div (3 * word_score + sound_score) 4"

definition MAXSCORE :: "int \<Rightarrow> int \<Rightarrow> int" where
  "MAXSCORE word_score sound_score = c_div (4 * word_score - sound_score) 3"

subsection \<open>bytes2offset\<close>

type_synonym char_u = "8 word"

text \<open>
  \<^verbatim>\<open>bytes2offset(char_u **pp)\<close> reads one to four bytes at \<^verbatim>\<open>*pp\<close> and advances the
  pointer. The model takes the bytes from \<^verbatim>\<open>*pp\<close> on and returns the number together
  with the bytes from the advanced pointer on; \<open>None\<close> stands for a read past the end of
  the given bytes.
\<close>

fun bytes2offset :: "char_u list \<Rightarrow> (int \<times> char_u list) option" where
  "bytes2offset [] = None"
| "bytes2offset (c0 # p) =
     (let c = uint c0 in
      if c AND 0x80 = 0x00 then Some (c - 1, p)
      else if c AND 0xc0 = 0x80 then
        (case p of
           y # p' \<Rightarrow> Some (((c AND 0x3f) - 1) * 255 + (uint y - 1), p')
         | _ \<Rightarrow> None)
      else if c AND 0xe0 = 0xc0 then
        (case p of
           y # z # p' \<Rightarrow>
             Some ((((c AND 0x1f) - 1) * 255 + (uint y - 1)) * 255 + (uint z - 1), p')
         | _ \<Rightarrow> None)
      else
        (case p of
           y # z # w # p' \<Rightarrow>
             Some (((((c AND 0x0f) - 1) * 255 + (uint y - 1)) * 255 + (uint z - 1)) * 255
                     + (uint w - 1), p')
         | _ \<Rightarrow> None))"

subsection \<open>Languages, encodings and similar characters\<close>

text \<open>
  Of \<^verbatim>\<open>slang_T\<close> (declared in spell.h) the model keeps the fields this file reads:
  \<open>sl_id\<close> stands for the address of the structure, \<open>sl_sal_len\<close> for \<^verbatim>\<open>sl_sal.ga_len\<close>,
  \<open>sl_map_array\<close> for the 256-entry table of character classes and \<open>sl_map_hash\<close> for the
  hash table that gives the class of a character above 255 (no entry: class 0). A
  pointer to a language is a \<^typ>\<open>'a option\<close>, \<open>None\<close> for \<^verbatim>\<open>NULL\<close>.
\<close>

record slang =
  sl_id :: nat
  sl_sal_len :: nat
  sl_has_map :: bool
  sl_map_array :: "nat list"
  sl_map_hash :: "(nat \<times> nat) list"

text \<open>
  What the file takes from the character encoding (mbyte.c, spell.h): the global
  \<^verbatim>\<open>has_mbyte\<close>; \<open>mb_chars w\<close>, the characters that repeated \<^verbatim>\<open>mb_cptr2char_adv\<close> reads from
  \<open>w\<close> up to its NUL; \<open>mb_head_off s i\<close>, the distance from byte \<open>i\<close> of \<open>s\<close> back to the first
  byte of its character; \<open>mb_ptr2char p\<close>, the character that starts the bytes \<open>p\<close>; and the
  macro \<^verbatim>\<open>SPELL_TOFOLD\<close>. They are parameters of the model.
\<close>

record encoding =
  has_mbyte :: bool
  mb_chars :: "string \<Rightarrow> nat list"
  mb_head_off :: "string \<Rightarrow> nat \<Rightarrow> nat"
  mb_ptr2char :: "string \<Rightarrow> nat"
  SPELL_TOFOLD :: "nat \<Rightarrow> nat"

definition map_class :: "slang \<Rightarrow> nat \<Rightarrow> nat" where
  "map_class sl c =
     (if c \<ge> 256 then (case map_of (sl_map_hash sl) c of None \<Rightarrow> 0 | Some m \<Rightarrow> m)
      else if c < length (sl_map_array sl) then sl_map_array sl ! c else 0)"

definition similar_chars :: "slang \<Rightarrow> nat \<Rightarrow> nat \<Rightarrow> bool" where
  "similar_chars sl c1 c2 =
     (let m1 = map_class sl c1 in
      if m1 = 0 then False
      else (let m2 = map_class sl c2 in m1 = m2))"

subsection \<open>spell_edit_score\<close>

text \<open>
  The score both scorers add for replacing the bad word's character \<open>bc\<close> by the
  different character \<open>gc\<close>: the same three-way test stands in \<^verbatim>\<open>spell_edit_score\<close>,
  \<^verbatim>\<open>spell_edit_score_limit\<close> and \<^verbatim>\<open>spell_edit_score_limit_w\<close>.
\<close>

definition subst_score :: "encoding \<Rightarrow> slang option \<Rightarrow> nat \<Rightarrow> nat \<Rightarrow> int" where
  "subst_score E slang bc gc =
     (if SPELL_TOFOLD E bc = SPELL_TOFOLD E gc then SCORE_ICASE
      else if (case slang of None \<Rightarrow> False
               | Some sl \<Rightarrow> sl_has_map sl \<and> similar_chars sl gc bc) then SCORE_SIMILAR
      else SCORE_SUBST)"

text \<open>
  The characters of a word as the scorers index them, the terminating NUL included:
  the bytes of the word, or with \<^verbatim>\<open>has_mbyte\<close> the array \<^verbatim>\<open>wbadword\<close> / \<^verbatim>\<open>wgoodword\<close>.
\<close>

definition word_chars :: "encoding \<Rightarrow> string \<Rightarrow> nat list" where
  "word_chars E w = (if has_mbyte E then mb_chars E w else map of_char w) @ [0]"

text \<open>\<^verbatim>\<open>t = ...; if (t < CNT(i, j)) CNT(i, j) = t;\<close>\<close>

definition take_lower :: "int \<Rightarrow> int \<Rightarrow> int" where
  "take_lower t c = (if t < c then t else c)"

text \<open>
  \<open>CNT E slang wb wg i j\<close> is the value the two nested loops store in \<^verbatim>\<open>CNT(i, j)\<close>: every
  cell is written once, from cells the loops have written before it.
\<close>

function CNT :: "encoding \<Rightarrow> slang option \<Rightarrow> nat list \<Rightarrow> nat list \<Rightarrow> nat \<Rightarrow> nat \<Rightarrow> int" where
  "CNT E slang wb wg 0 0 = 0"
| "CNT E slang wb wg 0 (Suc j) = CNT E slang wb wg 0 j + SCORE_INS"
| "CNT E slang wb wg (Suc i) 0 = CNT E slang wb wg i 0 + SCORE_DEL"
| "CNT E slang wb wg (Suc i) (Suc j) =
     (if wb ! i = wg ! j then CNT E slang wb wg i j
      else
        take_lower (SCORE_INS + CNT E slang wb wg (Suc i) j)
          (take_lower (SCORE_DEL + CNT E slang wb wg i (Suc j))
             (if Suc i > 1 \<and> Suc j > 1 \<and> wb ! i = wg ! (j - 1) \<and> wb ! (i - 1) = wg ! j
              then take_lower (SCORE_SWAP + CNT E slang wb wg (i - 1) (j - 1))
                     (subst_score E slang (wb ! i) (wg ! j) + CNT E slang wb wg i j)
              else subst_score E slang (wb ! i) (wg ! j) + CNT E slang wb wg i j)))"
  by pat_completeness auto
termination
  by (relation "measure (\<lambda>(E, slang, wb, wg, i, j). i + j)") auto

text \<open>
  \<open>cnt_ok\<close> says whether \<^verbatim>\<open>ALLOC_MULT\<close> gave the matrix; without it the function
  returns 0. \<open>badlen\<close> and \<open>goodlen\<close> count the NUL, as in the source.
\<close>

definition spell_edit_score ::
  "encoding \<Rightarrow> bool \<Rightarrow> slang option \<Rightarrow> string \<Rightarrow> string \<Rightarrow> int" where
  "spell_edit_score E cnt_ok slang badword goodword =
     (let wb = word_chars E badword; wg = word_chars E goodword;
          badlen = length wb; goodlen = length wg
      in if \<not> cnt_ok then 0
         else CNT E slang wb wg (badlen - 1) (goodlen - 1))"

subsection \<open>spell_edit_score_limit and spell_edit_score_limit_w\<close>
















subsection \<open>A sample encoding for the concrete evaluations\<close>

text \<open>
  A single-byte encoding (\<^verbatim>\<open>has_mbyte\<close> unset, so the multi-byte functions are never
  called) whose \<^verbatim>\<open>SPELL_TOFOLD\<close> maps the ASCII capitals to the small letters.
\<close>

definition ascii_fold :: "nat \<Rightarrow> nat" where
  "ascii_fold c = (if 65 \<le> c \<and> c \<le> 90 then c + 32 else c)"

definition single_byte :: encoding where
  "single_byte = \<lparr> has_mbyte = False, mb_chars = (\<lambda>w. []), mb_head_off = (\<lambda>s i. 0),
     mb_ptr2char = (\<lambda>p. 0), SPELL_TOFOLD = ascii_fold \<rparr>"


subsection \<open>C strings\<close>

text \<open>
  \<open>byte_at s i\<close> is \<^verbatim>\<open>s[i]\<close>: index \<open>length s\<close> holds the NUL. No function of this file reads
  behind the NUL of a string it was given, except through an offset or length it was
  given with it (\<open>st_orglen\<close>, \<open>su_badlen\<close>); there the model reads NUL.
\<close>

definition byte_at :: "string \<Rightarrow> nat \<Rightarrow> char" where
  "byte_at s i = (if i < length s then s ! i else CHR 0x00)"

text \<open>
  The string a buffer holds after \<^verbatim>\<open>STRCPY(buf, base)\<close> followed by a copy of the string
  \<open>s\<close> to \<^verbatim>\<open>buf + off\<close>: the copy lands behind the NUL of \<open>base\<close> when \<open>off\<close> is beyond it, and
  the buffer still holds \<open>base\<close> then.
\<close>

definition str_put :: "string \<Rightarrow> int \<Rightarrow> string \<Rightarrow> string" where
  "str_put base off s = (if off \<le> int (length base) then take (nat off) base @ s else base)"

text \<open>
  Modelled from the spec: \<^verbatim>\<open>VIM_ISWHITE\<close>, \<^verbatim>\<open>skiptowhite\<close> and \<^verbatim>\<open>skipwhite\<close> are a macro and
  two functions of Vim that this file only calls; the spec speaks of whitespace-separated
  halves. White is a space or a tab; \<^verbatim>\<open>skiptowhite\<close> returns the pointer to the first white
  character or the NUL, \<^verbatim>\<open>skipwhite\<close> the pointer behind the leading white characters.
\<close>

definition VIM_ISWHITE :: "char \<Rightarrow> bool" where
  "VIM_ISWHITE c = (c = CHR '' '' \<or> c = CHR 0x09)"

definition skiptowhite :: "string \<Rightarrow> string" where
  "skiptowhite p = dropWhile (\<lambda>c. \<not> VIM_ISWHITE c) p"

definition skipwhite :: "string \<Rightarrow> string" where
  "skipwhite p = dropWhile VIM_ISWHITE p"

text \<open>
  Modelled from the spec: \<^verbatim>\<open>STRICMP\<close> is a macro this file only uses; the spec calls it the
  case-insensitive word comparison. The model compares byte by byte after mapping the
  ASCII capitals to small letters and returns the difference at the first position that
  differs; it returns 0 when it reaches the NUL of the first string without a difference.
\<close>

definition lower_byte :: "char \<Rightarrow> int" where
  "lower_byte c = (let n = int (of_char c :: nat) in if 65 \<le> n \<and> n \<le> 90 then n + 32 else n)"

fun STRICMP :: "string \<Rightarrow> string \<Rightarrow> int" where
  "STRICMP [] [] = 0"
| "STRICMP [] (y # ys) = 0 - lower_byte y"
| "STRICMP (x # xs) [] = lower_byte x - 0"
| "STRICMP (x # xs) (y # ys) =
     (if lower_byte x - lower_byte y \<noteq> 0 then lower_byte x - lower_byte y
      else if x = CHR 0x00 then 0
      else STRICMP xs ys)"

subsection \<open>Suggestions and the suggestion info\<close>

record suggest_T =
  st_word :: string
  st_wordlen :: int
  st_orglen :: int
  st_score :: int
  st_altscore :: int
  st_salscore :: bool
  st_had_bonus :: bool
  st_slang :: "slang option"

text \<open>
  A grow array of suggestions is the list of its first \<^verbatim>\<open>ga_len\<close> items. \<open>su_banned\<close> is
  the set of keys of the hash table.
\<close>

record suginfo_T =
  su_ga :: "suggest_T list"
  su_maxcount :: int
  su_maxscore :: int
  su_sfmaxscore :: int
  su_sga :: "suggest_T list"
  su_badptr :: string
  su_badlen :: int
  su_badflags :: int
  su_badword :: string
  su_fbadword :: string
  su_sal_badword :: string
  su_banned :: "string set"
  su_sallang :: "slang option"

text \<open>
  What this file calls and does not define, as parameters of the model: the encoding;
  the constant \<^verbatim>\<open>MAXWLEN\<close> (spell.h); \<open>spell_soundfold slang word folded\<close>, the sound-folded
  word; \<open>spell_casefold text\<close>, the case-folded text; \<open>spell_check_bad word\<close>, whether
  \<^verbatim>\<open>spell_check\<close> flags the start of \<open>word\<close> (it sets \<^verbatim>\<open>attr\<close>); \<open>make_case_word word flags\<close>;
  and the C library's \<^verbatim>\<open>qsort\<close> with the comparison function it is given.
\<close>

record extern =
  enc :: encoding
  MAXWLEN :: int
  spell_soundfold :: "slang \<Rightarrow> string \<Rightarrow> bool \<Rightarrow> string"
  spell_casefold :: "string \<Rightarrow> string"
  spell_check_bad :: "string \<Rightarrow> bool"
  make_case_word :: "string \<Rightarrow> int \<Rightarrow> string"
  qsort :: "(suggest_T \<Rightarrow> suggest_T \<Rightarrow> int) \<Rightarrow> suggest_T list \<Rightarrow> suggest_T list"

text \<open>
  What the C standard promises of \<^verbatim>\<open>qsort\<close>: the array holds the same items, each item
  compares lower than or equal to every item behind it. The order of items that compare
  equal is left open, so theorems about a sorted list assume no more than this.
\<close>

definition qsort_sorts ::
  "extern \<Rightarrow> (suggest_T \<Rightarrow> suggest_T \<Rightarrow> int) \<Rightarrow> bool" where
  "qsort_sorts X cmp =
     (\<forall>xs. mset (qsort X cmp xs) = mset xs
           \<and> sorted_wrt (\<lambda>a b. cmp a b \<le> 0) (qsort X cmp xs))"

subsection \<open>soundalike_score\<close>

text \<open>
  A pointer into a string is the list of the bytes from it on. \<open>skip_same\<close> is
  \<^verbatim>\<open>while (*pl == *ps && *pl != NUL) { ++pl; ++ps; }\<close>. The source also writes this loop
  without the test for NUL, and with \<^verbatim>\<open>if (*pl2 == NUL) return ...\<close> inside: where the
  test is missing the two strings differ in length at that point, so the loop cannot
  reach both NULs, and where the loop returns the model tests for the two empty lists.
\<close>

fun skip_same :: "string \<Rightarrow> string \<Rightarrow> string \<times> string" where
  "skip_same (x # xs) (y # ys) = (if x = y then skip_same xs ys else (x # xs, y # ys))"
| "skip_same xs ys = (xs, ys)"

text \<open>\<^verbatim>\<open>pl[0] == ps[1] && pl[1] == ps[0]\<close>\<close>

definition swapped_at :: "string \<Rightarrow> string \<Rightarrow> bool" where
  "swapped_at pl ps = (byte_at pl 0 = byte_at ps 1 \<and> byte_at pl 1 = byte_at ps 0)"

text \<open>\<^verbatim>\<open>case -2: case 2:\<close>\<close>

definition sound_case2 :: "int \<Rightarrow> string \<Rightarrow> string \<Rightarrow> int" where
  "sound_case2 score pl ps =
     (case skip_same (drop 1 pl) ps of
        (pl1, ps1) \<Rightarrow> if drop 1 pl1 = ps1 then score + SCORE_DEL * 2 else SCORE_MAXMAX)"

text \<open>\<^verbatim>\<open>case -1: case 1:\<close>\<close>

definition sound_case1 :: "int \<Rightarrow> string \<Rightarrow> string \<Rightarrow> int" where
  "sound_case1 score pl ps =
     (case skip_same (drop 1 pl) ps of
        (pl2, ps2) \<Rightarrow>
          if pl2 = [] \<and> ps2 = [] then score + SCORE_DEL
          else if swapped_at pl2 ps2 \<and> drop 2 pl2 = drop 2 ps2
            then score + SCORE_DEL + SCORE_SWAP
          else if drop 1 pl2 = drop 1 ps2 then score + SCORE_DEL + SCORE_SUBST
          else if swapped_at pl ps
                  \<and> (case skip_same (drop 2 pl) (drop 2 ps) of
                        (pl3, ps3) \<Rightarrow> drop 1 pl3 = ps3)
            then score + SCORE_SWAP + SCORE_DEL
          else (case skip_same (drop 1 pl) (drop 1 ps) of
                  (pl4, ps4) \<Rightarrow>
                    if drop 1 pl4 = ps4 then score + SCORE_SUBST + SCORE_DEL
                    else SCORE_MAXMAX))"

text \<open>\<^verbatim>\<open>case 0:\<close> the part that starts with the swap (2, 3 and 4) and the rest (5 to 9).\<close>

definition sound_case0_swap :: "int \<Rightarrow> string \<Rightarrow> string \<Rightarrow> int option" where
  "sound_case0_swap score pl ps =
     (if swapped_at pl ps then
        (case skip_same (drop 2 pl) (drop 2 ps) of
           (pl2, ps2) \<Rightarrow>
             if pl2 = [] \<and> ps2 = [] then Some (score + SCORE_SWAP)
             else if swapped_at pl2 ps2 \<and> drop 2 pl2 = drop 2 ps2
               then Some (score + SCORE_SWAP + SCORE_SWAP)
             else if drop 1 pl2 = drop 1 ps2 then Some (score + SCORE_SWAP + SCORE_SUBST)
             else None)
      else None)"

definition sound_case0 :: "int \<Rightarrow> string \<Rightarrow> string \<Rightarrow> int" where
  "sound_case0 score pl ps =
     (if pl = [] then score
      else case sound_case0_swap score pl ps of
        Some r \<Rightarrow> r
      | None \<Rightarrow>
         (case skip_same (drop 1 pl) (drop 1 ps) of
            (pl2, ps2) \<Rightarrow>
              if pl2 = [] \<and> ps2 = [] then score + SCORE_SUBST
              else if swapped_at pl2 ps2 \<and> drop 2 pl2 = drop 2 ps2
                then score + SCORE_SUBST + SCORE_SWAP
              else if drop 1 pl2 = drop 1 ps2 then score + SCORE_SUBST + SCORE_SUBST
              else if (case skip_same pl (drop 1 ps) of (pl3, ps3) \<Rightarrow> drop 1 pl3 = ps3)
                then score + SCORE_INS + SCORE_DEL
              else if (case skip_same (drop 1 pl) ps of (pl4, ps4) \<Rightarrow> pl4 = drop 1 ps4)
                then score + SCORE_INS + SCORE_DEL
              else SCORE_MAXMAX))"

definition soundalike_score :: "string \<Rightarrow> string \<Rightarrow> int" where
  "soundalike_score goodstart badstart =
     (let g0 = byte_at goodstart 0; b0 = byte_at badstart 0;
          star = ((b0 = CHR ''*'' \<or> g0 = CHR ''*'') \<and> b0 \<noteq> g0)
      in
      if star \<and> ((b0 = CHR 0x00 \<and> byte_at goodstart 1 = CHR 0x00)
                  \<or> (g0 = CHR 0x00 \<and> byte_at badstart 1 = CHR 0x00)) then SCORE_DEL
      else if star \<and> (b0 = CHR 0x00 \<or> g0 = CHR 0x00) then SCORE_MAXMAX
      else
        (let skip = (star \<and> \<not> (byte_at badstart 1 = byte_at goodstart 1
                          \<or> (byte_at badstart 1 \<noteq> CHR 0x00 \<and> byte_at goodstart 1 \<noteq> CHR 0x00
                              \<and> byte_at badstart 2 = byte_at goodstart 2)));
             score = (if skip then c_div (2 * SCORE_DEL) 3 else 0);
             badsound = (if skip \<and> b0 = CHR ''*'' then drop 1 badstart else badstart);
             goodsound = (if skip \<and> b0 \<noteq> CHR ''*'' then drop 1 goodstart else goodstart);
             n = int (length goodsound) - int (length badsound)
         in
         if n < - 2 \<or> n > 2 then SCORE_MAXMAX
         else
           (case (if n > 0 then skip_same goodsound badsound
                  else skip_same badsound goodsound) of
              (pl, ps) \<Rightarrow>
                if n = 2 \<or> n = - 2 then sound_case2 score pl ps
                else if n = 1 \<or> n = - 1 then sound_case1 score pl ps
                else sound_case0 score pl ps)))"

subsection \<open>stp_sal_score, rescore_one, rescore_suggestions\<close>

definition stp_sal_score :: "extern \<Rightarrow> suggest_T \<Rightarrow> suginfo_T \<Rightarrow> slang \<Rightarrow> string \<Rightarrow> int" where
  "stp_sal_score X stp su slang badsound =
     (let lendiff = su_badlen su - st_orglen stp;
          pbad =
            (if lendiff \<ge> 0 then badsound
             else
               (let fword = spell_casefold X (take (nat (st_orglen stp)) (su_badptr su));
                    fword' =
                      (if VIM_ISWHITE (byte_at (su_badptr su) (nat (su_badlen su)))
                          \<and> skiptowhite (st_word stp) = []
                       then filter (\<lambda>c. \<not> VIM_ISWHITE c) fword
                       else fword)
                in spell_soundfold X slang fword' True));
          pgood =
            (if lendiff > 0 \<and> st_wordlen stp + lendiff < MAXWLEN X
             then str_put (st_word stp) (st_wordlen stp)
                    (take (nat lendiff) (drop (nat (su_badlen su - lendiff)) (su_badptr su)))
             else st_word stp)
      in soundalike_score (spell_soundfold X slang pgood False) pbad)"

definition rescore_one :: "extern \<Rightarrow> suginfo_T \<Rightarrow> suggest_T \<Rightarrow> suggest_T" where
  "rescore_one X su stp =
     (case st_slang stp of
        None \<Rightarrow> stp
      | Some slang \<Rightarrow>
          if sl_sal_len slang > 0 \<and> \<not> st_had_bonus stp then
            (let p = (if Some slang = su_sallang su then su_sal_badword su
                      else spell_soundfold X slang (su_fbadword su) True);
                 alt = stp_sal_score X stp su slang p;
                 alt' = (if alt = SCORE_MAXMAX then SCORE_BIG else alt)
             in stp\<lparr> st_altscore := alt',
                     st_score := RESCORE (st_score stp) alt',
                     st_had_bonus := True \<rparr>)
          else stp)"


subsection \<open>sug_compare, cleanup_suggestions, check_suggestions\<close>

definition sug_compare :: "suggest_T \<Rightarrow> suggest_T \<Rightarrow> int" where
  "sug_compare p1 p2 =
     (let n = st_score p1 - st_score p2 in
      if n = 0 then
        (let n' = st_altscore p1 - st_altscore p2 in
         if n' = 0 then STRICMP (st_word p1) (st_word p2) else n')
      else n)"

text \<open>
  The order the spec names: ascending by score, ties broken by the alternate score and
  then by the case-insensitive comparison of the words.
\<close>

definition in_suggest_order :: "suggest_T \<Rightarrow> suggest_T \<Rightarrow> bool" where
  "in_suggest_order a b =
     (st_score a < st_score b
      \<or> (st_score a = st_score b
          \<and> (st_altscore a < st_altscore b
              \<or> (st_altscore a = st_altscore b \<and> STRICMP (st_word a) (st_word b) \<le> 0))))"

text \<open>The result is the array after the call and the value returned.\<close>

definition cleanup_suggestions ::
  "extern \<Rightarrow> suggest_T list \<Rightarrow> int \<Rightarrow> int \<Rightarrow> suggest_T list \<times> int" where
  "cleanup_suggestions X gap maxscore keep =
     (if int (length gap) \<le> 0 then (gap, maxscore)
      else
        (let sorted = qsort X sug_compare gap in
         if int (length gap) > keep then
           (take (nat keep) sorted,
            if keep \<ge> 1 then st_score (sorted ! (nat keep - 1)) else maxscore)
         else (sorted, maxscore)))"

definition check_suggestions :: "extern \<Rightarrow> suginfo_T \<Rightarrow> suggest_T list \<Rightarrow> suggest_T list" where
  "check_suggestions X su gap =
     filter (\<lambda>stp.
        \<not> spell_check_bad X
            (str_put (take (nat (MAXWLEN X)) (st_word stp)) (st_wordlen stp)
               (take (nat (MAXWLEN X - st_wordlen stp))
                  (drop (nat (st_orglen stp)) (su_badptr su))))) gap"

subsection \<open>add_suggestion\<close>

definition SUG_CLEAN_COUNT :: "suginfo_T \<Rightarrow> int" where
  "SUG_CLEAN_COUNT su = (if su_maxcount su < 130 then 150 else su_maxcount su + 20)"

definition SUG_MAX_COUNT :: "suginfo_T \<Rightarrow> int" where
  "SUG_MAX_COUNT su = SUG_CLEAN_COUNT su + 50"

text \<open>
  \<^verbatim>\<open>MB_PTR_BACK(s, p)\<close> (macros.h) is \<^verbatim>\<open>p -= has_mbyte ? ((*mb_head_off)(s, p - 1) + 1) : 1\<close>.
  A pointer into a string is its offset. \<open>ptr_char\<close> is what the loop compares: the
  characters \<^verbatim>\<open>mb_ptr2char\<close> reads with \<^verbatim>\<open>has_mbyte\<close>, the bytes otherwise.
\<close>

definition MB_PTR_BACK :: "encoding \<Rightarrow> string \<Rightarrow> int \<Rightarrow> int" where
  "MB_PTR_BACK E s p =
     p - (if has_mbyte E then int (mb_head_off E s (nat (p - 1))) + 1 else 1)"

definition ptr_char :: "encoding \<Rightarrow> string \<Rightarrow> int \<Rightarrow> nat" where
  "ptr_char E s p =
     (if has_mbyte E then mb_ptr2char E (drop (nat p) s) else of_char (byte_at s (nat p)))"

text \<open>
  The loop that minimizes \<open>badlen\<close>; \<open>pgood\<close> and \<open>pbad\<close> are the offsets of the two
  pointers in \<open>goodword\<close> and in \<open>su_badptr\<close>. The result is \<open>(goodlen, badlen)\<close> at the
  \<^verbatim>\<open>break\<close>.
\<close>

function sug_minimize :: "encoding \<Rightarrow> string \<Rightarrow> string \<Rightarrow> int \<Rightarrow> int \<Rightarrow> int \<times> int" where
  "sug_minimize E goodword badptr pgood pbad =
     (if pgood \<le> 0 \<or> pbad \<le> 0 then (pgood, pbad)
      else if ptr_char E goodword (MB_PTR_BACK E goodword pgood)
                \<noteq> ptr_char E badptr (MB_PTR_BACK E badptr pbad)
      then (pgood, pbad)
      else sug_minimize E goodword badptr
             (MB_PTR_BACK E goodword pgood) (MB_PTR_BACK E badptr pbad))"
  by pat_completeness auto
termination
  by (relation "measure (\<lambda>(E, goodword, badptr, pgood, pbad). nat pgood)")
     (auto simp: MB_PTR_BACK_def)

declare sug_minimize.simps [simp del]

text \<open>
  One turn of the loop moves both pointers back by a character:
  \<^verbatim>\<open>MB_PTR_BACK(goodword, pgood); MB_PTR_BACK(su->su_badptr, pbad);\<close>
\<close>

definition back_both :: "encoding \<Rightarrow> string \<Rightarrow> string \<Rightarrow> int \<times> int \<Rightarrow> int \<times> int" where
  "back_both E goodword badptr p =
     (MB_PTR_BACK E goodword (fst p), MB_PTR_BACK E badptr (snd p))"

text \<open>The test that lets the loop take another turn from the offsets \<open>p\<close>.\<close>

definition same_last :: "encoding \<Rightarrow> string \<Rightarrow> string \<Rightarrow> int \<times> int \<Rightarrow> bool" where
  "same_last E goodword badptr p =
     (0 < fst p \<and> 0 < snd p
      \<and> ptr_char E goodword (MB_PTR_BACK E goodword (fst p))
          = ptr_char E badptr (MB_PTR_BACK E badptr (snd p)))"

text \<open>\<open>gap\<close> is \<^verbatim>\<open>&su->su_ga\<close> or \<^verbatim>\<open>&su->su_sga\<close>.\<close>

datatype which_ga = SU_GA | SU_SGA

definition get_ga :: "suginfo_T \<Rightarrow> which_ga \<Rightarrow> suggest_T list" where
  "get_ga su gap = (case gap of SU_GA \<Rightarrow> su_ga su | SU_SGA \<Rightarrow> su_sga su)"

definition set_ga :: "suginfo_T \<Rightarrow> which_ga \<Rightarrow> suggest_T list \<Rightarrow> suginfo_T" where
  "set_ga su gap ga = (case gap of SU_GA \<Rightarrow> su\<lparr> su_ga := ga \<rparr> | SU_SGA \<Rightarrow> su\<lparr> su_sga := ga \<rparr>)"

text \<open>
  The test of the search loop; \<^verbatim>\<open>STRNCMP(a, b, n) == 0\<close> holds when the first \<open>n\<close> bytes
  of the two strings agree.
\<close>

definition sug_same :: "suggest_T \<Rightarrow> string \<Rightarrow> int \<Rightarrow> int \<Rightarrow> bool" where
  "sug_same stp goodword goodlen badlen =
     (st_wordlen stp = goodlen \<and> st_orglen stp = badlen
      \<and> take (nat goodlen) (st_word stp) = take (nat goodlen) goodword)"

text \<open>The index of the first entry the loop stops at, if any.\<close>

fun sug_find :: "suggest_T list \<Rightarrow> string \<Rightarrow> int \<Rightarrow> int \<Rightarrow> nat option" where
  "sug_find [] goodword goodlen badlen = None"
| "sug_find (stp # ga) goodword goodlen badlen =
     (if sug_same stp goodword goodlen badlen then Some 0
      else map_option Suc (sug_find ga goodword goodlen badlen))"

text \<open>
  The body of the loop for the entry found. Of the local \<^verbatim>\<open>new_sug\<close> only the score, the
  alternate score and the bonus flag are read afterwards; \<^verbatim>\<open>rescore_one\<close> reads its word,
  lengths and language, which the source sets before that call.
\<close>

definition sug_found ::
  "extern \<Rightarrow> suginfo_T \<Rightarrow> suggest_T \<Rightarrow> int \<Rightarrow> int \<Rightarrow> int \<Rightarrow> bool \<Rightarrow> slang option
     \<Rightarrow> suggest_T" where
  "sug_found X su stp0 badlen score altscore had_bonus slang =
     (let stp1 = (if st_slang stp0 = None then stp0\<lparr> st_slang := slang \<rparr> else stp0);
          new_sug = \<lparr> st_word = st_word stp1, st_wordlen = st_wordlen stp1,
                      st_orglen = badlen, st_score = score, st_altscore = altscore,
                      st_salscore = False, st_had_bonus = had_bonus,
                      st_slang = st_slang stp1 \<rparr>;
          stp2 = (if st_had_bonus stp1 \<noteq> had_bonus \<and> had_bonus
                  then rescore_one X su stp1 else stp1);
          new_sug2 = (if st_had_bonus stp1 \<noteq> had_bonus \<and> \<not> had_bonus
                      then rescore_one X su new_sug else new_sug)
      in if st_score stp2 > st_score new_sug2
         then stp2\<lparr> st_score := st_score new_sug2, st_altscore := st_altscore new_sug2,
                    st_had_bonus := st_had_bonus new_sug2 \<rparr>
         else stp2)"

text \<open>
  \<open>mem_ok\<close> says whether \<^verbatim>\<open>ga_grow(gap, 1)\<close> and \<^verbatim>\<open>vim_strnsave\<close> succeed; the source adds
  nothing when either fails. \<^verbatim>\<open>st_salscore\<close> of a new entry is not assigned here; it is
  only set by \<^verbatim>\<open>score_combine\<close>, which runs last, so the slot holds 0.
\<close>

definition add_suggestion ::
  "extern \<Rightarrow> bool \<Rightarrow> suginfo_T \<Rightarrow> which_ga \<Rightarrow> string \<Rightarrow> int \<Rightarrow> int \<Rightarrow> int \<Rightarrow> bool
     \<Rightarrow> slang option \<Rightarrow> bool \<Rightarrow> suginfo_T" where
  "add_suggestion X mem_ok su gap goodword badlenarg score altscore had_bonus slang maxsf =
     (case sug_minimize (enc X) goodword (su_badptr su) (int (length goodword)) badlenarg of
        (goodlen, badlen) \<Rightarrow>
          if badlen = 0 \<and> goodlen = 0 then su
          else
            (case sug_find (get_ga su gap) goodword goodlen badlen of
               Some i \<Rightarrow>
                 set_ga su gap
                   ((get_ga su gap)
                      [i := sug_found X su (get_ga su gap ! i) badlen score altscore
                              had_bonus slang])
             | None \<Rightarrow>
                 if \<not> mem_ok then su
                 else
                   (let stp = \<lparr> st_word = take (nat goodlen) goodword, st_wordlen = goodlen,
                                 st_orglen = badlen, st_score = score, st_altscore = altscore,
                                 st_salscore = False, st_had_bonus = had_bonus,
                                 st_slang = slang \<rparr>;
                        ga = get_ga su gap @ [stp]
                    in if int (length ga) > SUG_MAX_COUNT su then
                         (if maxsf then
                            (case cleanup_suggestions X ga (su_sfmaxscore su)
                                    (SUG_CLEAN_COUNT su) of
                               (ga', m) \<Rightarrow> (set_ga su gap ga')\<lparr> su_sfmaxscore := m \<rparr>)
                          else
                            (case cleanup_suggestions X ga (su_maxscore su)
                                    (SUG_CLEAN_COUNT su) of
                               (ga', m) \<Rightarrow> (set_ga su gap ga')\<lparr> su_maxscore := m \<rparr>))
                       else set_ga su gap ga)))"

subsection \<open>suggest_try_special\<close>

definition suggest_try_special :: "extern \<Rightarrow> bool \<Rightarrow> suginfo_T \<Rightarrow> suginfo_T" where
  "suggest_try_special X mem_ok su =
     (let len = length (su_fbadword su) - length (skiptowhite (su_fbadword su));
          p = skipwhite (skiptowhite (su_fbadword su))
      in if length p = len \<and> take len (su_fbadword su) = take len p then
           add_suggestion X mem_ok su SU_GA
             (make_case_word X (take len (su_fbadword su)) (su_badflags su))
             (su_badlen su) (RESCORE SCORE_REP 0) 0 True (su_sallang su) False
         else su)"

subsection \<open>score_combine\<close>

text \<open>The two loops that visit \<^verbatim>\<open>su_ga[i]\<close>, \<^verbatim>\<open>su_sga[i]\<close> for \<open>i = 0, 1, ...\<close> in turn.\<close>

fun entwine :: "suggest_T list \<Rightarrow> suggest_T list \<Rightarrow> suggest_T list" where
  "entwine [] ys = ys"
| "entwine xs [] = xs"
| "entwine (x # xs) (y # ys) = x # y # entwine xs ys"

text \<open>\<^verbatim>\<open>if (j == ga.ga_len) stp[ga.ga_len++] = SUG(*gap, i); else vim_free(p);\<close>\<close>

definition add_if_new :: "suggest_T list \<Rightarrow> suggest_T \<Rightarrow> suggest_T list" where
  "add_if_new ga stp = (if \<exists>s \<in> set ga. st_word s = st_word stp then ga else ga @ [stp])"

text \<open>
  \<open>langs\<close> are the \<^verbatim>\<open>lp_slang\<close> of the entries of \<^verbatim>\<open>curwin->w_s->b_langp\<close>; \<open>cnt_ok w\<close> says
  whether \<^verbatim>\<open>spell_edit_score\<close> gets its matrix for the word \<open>w\<close>, \<open>grow_ok\<close> whether the
  \<^verbatim>\<open>ga_grow\<close> for the combined list succeeds.
\<close>

definition score_combine ::
  "extern \<Rightarrow> slang list \<Rightarrow> (string \<Rightarrow> bool) \<Rightarrow> bool \<Rightarrow> suginfo_T \<Rightarrow> suginfo_T" where
  "score_combine X langs cnt_ok grow_ok su =
     (case find (\<lambda>sl. sl_sal_len sl > 0) langs of
        None \<Rightarrow>
          su\<lparr> su_ga := fst (cleanup_suggestions X (su_ga su) (su_maxscore su) (su_maxcount su)) \<rparr>
      | Some slang \<Rightarrow>
          (let badsound = spell_soundfold X slang (su_fbadword su) True;
               ga1 = map (\<lambda>stp.
                        (let alt = stp_sal_score X stp su slang badsound in
                         stp\<lparr> st_altscore := alt,
                               st_score := (if alt = SCORE_MAXMAX
                                            then c_div (st_score stp * 3 + SCORE_BIG) 4
                                            else c_div (st_score stp * 3 + alt) 4),
                               st_salscore := False \<rparr>)) (su_ga su);
               sga1 = map (\<lambda>stp.
                        (let alt = spell_edit_score (enc X) (cnt_ok (st_word stp)) (Some slang)
                                     (su_badword su) (st_word stp) in
                         stp\<lparr> st_altscore := alt,
                               st_score := (if st_score stp = SCORE_MAXMAX
                                            then c_div (SCORE_BIG * 7 + alt) 8
                                            else c_div (st_score stp * 7 + alt) 8),
                               st_salscore := True \<rparr>)) (su_sga su);
               ga2 = fst (cleanup_suggestions X (check_suggestions X su ga1)
                            (su_maxscore su) (su_maxcount su));
               sga2 = fst (cleanup_suggestions X (check_suggestions X su sga1)
                             (su_maxscore su) (su_maxcount su))
           in if \<not> grow_ok then su\<lparr> su_ga := ga2, su_sga := sga2 \<rparr>
              else
                (let ga = foldl add_if_new [] (entwine ga2 sga2) in
                 su\<lparr> su_ga := (if int (length ga) > su_maxcount su
                                then take (nat (su_maxcount su)) ga else ga),
                      su_sga := [] \<rparr>)))"

subsection \<open>The parts of 'spellsuggest' and the end of spell_suggest_intern\<close>

definition SPS_FAST :: int where "SPS_FAST = 2"






subsection \<open>spell_suggest_list\<close>

text \<open>
  The loop of \<^verbatim>\<open>spell_suggest_list\<close> that fills \<^verbatim>\<open>gap\<close> from the info \<^verbatim>\<open>spell_find_suggest\<close>
  left in \<^verbatim>\<open>sug\<close>. \<open>grow_ok\<close> is the result of \<^verbatim>\<open>ga_grow\<close>; \<open>alloc_ok i\<close> says whether the
  \<^verbatim>\<open>alloc\<close> for entry \<open>i\<close> succeeds, and the loop stops at the first that fails.
\<close>

definition suggest_copy :: "suginfo_T \<Rightarrow> suggest_T \<Rightarrow> string" where
  "suggest_copy sug stp =
     str_put (st_word stp) (st_wordlen stp) (drop (nat (st_orglen stp)) (su_badptr sug))"

fun copy_loop :: "(nat \<Rightarrow> bool) \<Rightarrow> suginfo_T \<Rightarrow> nat \<Rightarrow> suggest_T list \<Rightarrow> string list" where
  "copy_loop alloc_ok sug i [] = []"
| "copy_loop alloc_ok sug i (stp # rest) =
     (if \<not> alloc_ok i then []
      else suggest_copy sug stp # copy_loop alloc_ok sug (i + 1) rest)"

definition spell_suggest_list_copy :: "bool \<Rightarrow> (nat \<Rightarrow> bool) \<Rightarrow> suginfo_T \<Rightarrow> string list" where
  "spell_suggest_list_copy grow_ok alloc_ok sug =
     (if grow_ok then copy_loop alloc_ok sug 0 (su_ga sug) else [])"

subsection \<open>suggest_trie_walk: the stack of states\<close>

datatype state_T =
    STATE_START | STATE_NOPREFIX | STATE_SPLITUNDO | STATE_ENDNUL | STATE_PLAIN | STATE_DEL
  | STATE_INS_PREP | STATE_INS | STATE_SWAP | STATE_UNSWAP | STATE_SWAP3 | STATE_UNSWAP3
  | STATE_UNROT3L | STATE_UNROT3R | STATE_REP_INI | STATE_REP | STATE_REP_UNDO | STATE_FINAL

definition PFD_NOPREFIX :: nat where "PFD_NOPREFIX = 0xff"
definition PFD_PREFIXTREE :: nat where "PFD_PREFIXTREE = 0xfe"

text \<open>
  Of \<^verbatim>\<open>trystate_T\<close> the model keeps the state, the score and \<^verbatim>\<open>ts_prefixdepth\<close> (a
  \<^verbatim>\<open>char_u\<close>). The other fields hold positions in the trees and in the words; the walk
  uses them in the tests that the record \<open>turn\<close> below stands for.
\<close>

record trystate_T =
  ts_state :: state_T
  ts_score :: int
  ts_prefixdepth :: nat

text \<open>
  The part of the walk's state that decides about going deeper: \<open>w_stack\<close> holds
  \<^verbatim>\<open>stack[0]\<close> to \<^verbatim>\<open>stack[depth]\<close> (the empty list is \<^verbatim>\<open>depth == -1\<close>), \<open>w_maxscore\<close> is
  \<^verbatim>\<open>su->su_maxscore\<close>, \<open>w_got_int\<close> the global \<^verbatim>\<open>got_int\<close> and \<open>w_depth\<close> the local \<^verbatim>\<open>depth\<close>.
\<close>

record walk_T =
  w_stack :: "trystate_T list"
  w_maxscore :: int
  w_got_int :: bool

definition w_depth :: "walk_T \<Rightarrow> int" where
  "w_depth w = int (length (w_stack w)) - 1"

text \<open>
  What does not change during a walk: the argument \<^verbatim>\<open>soundfold\<close> and
  \<^verbatim>\<open>slang->sl_pbyts != NULL\<close>. The local \<^verbatim>\<open>pbyts\<close> is \<^verbatim>\<open>slang->sl_pbyts\<close>, and \<^verbatim>\<open>NULL\<close> in the
  soundfold tree.
\<close>

record walk_env =
  soundfold :: bool
  has_pbyts :: bool

definition pbyts_set :: "walk_env \<Rightarrow> bool" where
  "pbyts_set env = (\<not> soundfold env \<and> has_pbyts env)"

text \<open>
  The statement \<^verbatim>\<open>sp->ts_score -= ...\<close> that a turn runs on the new frame after
  \<^verbatim>\<open>go_deeper\<close>, if any, and the amount it takes off.
\<close>

datatype bonus_T =
    NO_BONUS | BONUS_SUBCOMP | BONUS_SIMILAR | BONUS_INSCOMP | BONUS_INSDUP | BONUS_DELCOMP
  | BONUS_DELDUP

fun bonus_amount :: "bonus_T \<Rightarrow> int" where
  "bonus_amount NO_BONUS = 0"
| "bonus_amount BONUS_SUBCOMP = SCORE_SUBST - SCORE_SUBCOMP"
| "bonus_amount BONUS_SIMILAR = SCORE_SUBST - SCORE_SIMILAR"
| "bonus_amount BONUS_INSCOMP = SCORE_INS - SCORE_INSCOMP"
| "bonus_amount BONUS_INSDUP = SCORE_INS - SCORE_INSDUP"
| "bonus_amount BONUS_DELCOMP = SCORE_DEL - SCORE_DELCOMP"
| "bonus_amount BONUS_DELDUP = SCORE_DEL - SCORE_DELDUP"

text \<open>
  What one turn of the loop reads from the trees, the words and the language, as far
  as it decides which way the turn takes. Each field is the value of a test of the
  source at that turn:
  \<^item> \<open>prefix_nul\<close>: \<^verbatim>\<open>byts[arridx] == 0\<close> in the branch for the prefix tree;
  \<^item> \<open>past_nul\<close>: \<^verbatim>\<open>sp->ts_curi > len || byts[arridx] != 0\<close>;
  \<^item> \<open>new_maxscore\<close>: \<^verbatim>\<open>su->su_maxscore\<close> after the calls of \<^verbatim>\<open>add_suggestion\<close> that the
    turn makes for a word that ends in the tree (the value before the turn when it makes
    none);
  \<^item> \<open>tries_split\<close>: the turn reaches \<^verbatim>\<open>if (TRY_DEEPER(su, stack, depth, newscore))\<close> of the
    word split or compound, with \<open>split_newscore\<close> for \<^verbatim>\<open>newscore\<close>;
  \<^item> \<open>split_skips\<close>: the turn runs \<^verbatim>\<open>sp->ts_score -= SCORE_SPLIT - SCORE_SUBST\<close> on the new
    frame;
  \<^item> \<open>fword_nul\<close>: \<^verbatim>\<open>fword[sp->ts_fidx] == NUL\<close>; \<open>in_tchar\<close>: \<^verbatim>\<open>sp->ts_tcharlen > 0\<close>;
  \<^item> \<open>node_done\<close>: \<^verbatim>\<open>sp->ts_curi > byts[arridx]\<close> (\<^verbatim>\<open>byts[n]\<close> in \<^verbatim>\<open>STATE_INS\<close>);
  \<^item> \<open>may_change\<close>: \<^verbatim>\<open>sp->ts_fidx >= sp->ts_fidxtry\<close>;
  \<^item> \<open>byte_same\<close>: \<^verbatim>\<open>c == fword[sp->ts_fidx]\<close>; \<open>in_diff\<close>: \<^verbatim>\<open>sp->ts_isdiff != DIFF_NONE\<close>;
  \<^item> \<open>did_del\<close>: \<^verbatim>\<open>sp->ts_flags & TSF_DIDDEL\<close>; \<open>del_same\<close>: \<^verbatim>\<open>c == fword[sp->ts_delidx]\<close>;
  \<^item> \<open>bonus\<close>: the statement that lowers the score of the new frame;
  \<^item> \<open>has_mbyte_now\<close>: the global \<^verbatim>\<open>has_mbyte\<close>;
  \<^item> \<open>star_first\<close>: \<^verbatim>\<open>sp->ts_fidx == 0 && fword[sp->ts_fidx] == '*'\<close> in \<^verbatim>\<open>STATE_DEL\<close>,
    \<^verbatim>\<open>sp->ts_twordlen == 0 && c == '*'\<close> in \<^verbatim>\<open>STATE_INS\<close>;
  \<^item> \<open>finds_byte\<close>: the loop of \<^verbatim>\<open>STATE_INS_PREP\<close> ends at a byte that is not NUL;
  \<^item> \<open>out_of_bounds\<close>: \<^verbatim>\<open>byts == slang->sl_fbyts && n >= slang->sl_fbyts_len\<close>;
  \<^item> \<open>c_nonword\<close>: \<^verbatim>\<open>!spell_iswordp(p, curwin)\<close>; \<open>c2_nul\<close>: \<^verbatim>\<open>c2 == NUL\<close>;
    \<open>c_eq_c2\<close>: \<^verbatim>\<open>c == c2\<close>; \<open>c3_same_or_nul\<close>: \<^verbatim>\<open>c == c3 || c3 == NUL\<close>;
  \<^item> \<open>no_rep\<close>: \<^verbatim>\<open>lp->lp_replang == NULL\<close>; \<open>no_first\<close>: \<^verbatim>\<open>sp->ts_curi < 0\<close>;
  \<^item> \<open>rep_matches\<close>: the loop of \<^verbatim>\<open>STATE_REP\<close> comes to an item with
    \<^verbatim>\<open>STRNCMP(ftp->ft_from, p, STRLEN(ftp->ft_from)) == 0\<close> before it runs out of items;
  \<^item> \<open>interrupted\<close>: \<^verbatim>\<open>got_int\<close> after \<^verbatim>\<open>ui_breakcheck\<close> and the test of the time limit.
\<close>

record turn =
  prefix_nul :: bool
  past_nul :: bool
  new_maxscore :: int
  tries_split :: bool
  split_newscore :: int
  split_skips :: bool
  fword_nul :: bool
  in_tchar :: bool
  node_done :: bool
  may_change :: bool
  byte_same :: bool
  in_diff :: bool
  did_del :: bool
  del_same :: bool
  bonus :: bonus_T
  has_mbyte_now :: bool
  star_first :: bool
  finds_byte :: bool
  out_of_bounds :: bool
  c_nonword :: bool
  c2_nul :: bool
  c_eq_c2 :: bool
  c3_same_or_nul :: bool
  no_rep :: bool
  no_first :: bool
  rep_matches :: bool
  interrupted :: bool

text \<open>
  \<^verbatim>\<open>#define TRY_DEEPER(su, stack, depth, add) ((depth) < MAXWLEN - 1 &&
  (stack)[depth].ts_score + (add) < (su)->su_maxscore)\<close>
\<close>

definition TRY_DEEPER :: "extern \<Rightarrow> walk_T \<Rightarrow> int \<Rightarrow> bool" where
  "TRY_DEEPER X w add =
     (w_depth w < MAXWLEN X - 1 \<and> ts_score (last (w_stack w)) + add < w_maxscore w)"

text \<open>
  \<^verbatim>\<open>go_deeper(stack, depth, score_add)\<close> followed by \<^verbatim>\<open>++depth\<close>: the new frame is a copy of
  \<^verbatim>\<open>stack[depth]\<close> with the state \<^verbatim>\<open>STATE_START\<close> and the score raised by \<open>score_add\<close>.
\<close>

definition go_deeper :: "walk_T \<Rightarrow> int \<Rightarrow> walk_T" where
  "go_deeper w score_add =
     w\<lparr> w_stack := w_stack w
           @ [(last (w_stack w))\<lparr> ts_state := STATE_START,
                                ts_score := ts_score (last (w_stack w)) + score_add \<rparr>] \<rparr>"

text \<open>An assignment to a field of \<^verbatim>\<open>stack[i]\<close>.\<close>

definition set_frame :: "walk_T \<Rightarrow> int \<Rightarrow> (trystate_T \<Rightarrow> trystate_T) \<Rightarrow> walk_T" where
  "set_frame w i f = w\<lparr> w_stack := (w_stack w)[nat i := f (w_stack w ! nat i)] \<rparr>"

definition set_state :: "walk_T \<Rightarrow> int \<Rightarrow> state_T \<Rightarrow> walk_T" where
  "set_state w i s = set_frame w i (\<lambda>sp. sp\<lparr> ts_state := s \<rparr>)"

text \<open>
  What a turn did to the stack: it called \<^verbatim>\<open>go_deeper\<close> with the cost given, it went up
  one level, or it stayed at its level.
\<close>

datatype outcome = PUSHED int | POPPED | STAYED

text \<open>
  \<^verbatim>\<open>case STATE_START: case STATE_NOPREFIX:\<close> In the prefix tree the turn goes deeper
  with the cost 0, under the test \<^verbatim>\<open>depth < MAXWLEN - 1 && (byts[arridx] == 0 || n ==
  (int)STATE_NOPREFIX)\<close>, \<open>n\<close> being the state the turn started in; \<^verbatim>\<open>sp->ts_prefixdepth =
  depth - 1\<close> is stored in a \<^verbatim>\<open>char_u\<close>. Elsewhere, for a word that ends in the tree, the
  turn may add suggestions and then try a split or a compound word.
\<close>

definition turn_START :: "extern \<Rightarrow> walk_env \<Rightarrow> turn \<Rightarrow> walk_T \<Rightarrow> outcome \<times> walk_T" where
  "turn_START X env t w =
     (let d = w_depth w; sp = last (w_stack w) in
      if ts_prefixdepth sp = PFD_PREFIXTREE then
        (let w1 = set_state w d STATE_ENDNUL in
         if d < MAXWLEN X - 1 \<and> (prefix_nul t \<or> ts_state sp = STATE_NOPREFIX) then
           (PUSHED 0,
            set_frame (go_deeper w1 0) (d + 1)
              (\<lambda>sp. sp\<lparr> ts_prefixdepth := nat d mod 256 \<rparr>))
         else (STAYED, w1))
      else if past_nul t then (STAYED, set_state w d STATE_ENDNUL)
      else
        (let w1 = w\<lparr> w_maxscore := new_maxscore t \<rparr> in
         if tries_split t \<and> TRY_DEEPER X w1 (split_newscore t) then
           (PUSHED (split_newscore t),
            set_frame (set_state (go_deeper w1 (split_newscore t)) d STATE_SPLITUNDO) (d + 1)
              (\<lambda>sp. sp\<lparr> ts_score := (if split_skips t
                                        then ts_score sp - (SCORE_SPLIT - SCORE_SUBST)
                                        else ts_score sp),
                         ts_prefixdepth := (if pbyts_set env then PFD_PREFIXTREE
                                            else PFD_NOPREFIX),
                         ts_state := (if pbyts_set env then STATE_NOPREFIX
                                      else STATE_START) \<rparr>))
         else (STAYED, w1)))"

text \<open>
  \<^verbatim>\<open>case STATE_PLAIN:\<close> \<^verbatim>\<open>newscore\<close> is 0 for \<^verbatim>\<open>c == fword[sp->ts_fidx] ||
  (sp->ts_tcharlen > 0 && sp->ts_isdiff != DIFF_NONE)\<close> and \<^verbatim>\<open>SCORE_SUBST\<close> otherwise.
\<close>

definition turn_PLAIN :: "extern \<Rightarrow> walk_env \<Rightarrow> turn \<Rightarrow> walk_T \<Rightarrow> outcome \<times> walk_T" where
  "turn_PLAIN X env t w =
     (let d = w_depth w in
      if node_done t then
        (STAYED, set_state w d (if may_change t then STATE_DEL else STATE_FINAL))
      else
        (let newscore = (if byte_same t \<or> (in_tchar t \<and> in_diff t) then 0 else SCORE_SUBST) in
         if (newscore = 0 \<or> (may_change t \<and> (\<not> did_del t \<or> \<not> del_same t)))
            \<and> TRY_DEEPER X w newscore
         then
           (PUSHED newscore,
            set_frame (go_deeper w newscore) (d + 1)
              (\<lambda>sp. sp\<lparr> ts_score := ts_score sp
                           - (if bonus t \<in> {BONUS_SUBCOMP, BONUS_SIMILAR, BONUS_INSCOMP,
                                             BONUS_INSDUP}
                              then bonus_amount (bonus t) else 0) \<rparr>))
         else (STAYED, w)))"

text \<open>\<^verbatim>\<open>case STATE_ENDNUL:\<close> falls through to \<^verbatim>\<open>STATE_PLAIN\<close> unless the bad word ends.\<close>

definition turn_ENDNUL :: "extern \<Rightarrow> walk_env \<Rightarrow> turn \<Rightarrow> walk_T \<Rightarrow> outcome \<times> walk_T" where
  "turn_ENDNUL X env t w =
     (if fword_nul t \<and> \<not> in_tchar t then (STAYED, set_state w (w_depth w) STATE_DEL)
      else turn_PLAIN X env t (set_state w (w_depth w) STATE_PLAIN))"

text \<open>\<^verbatim>\<open>case STATE_INS_PREP:\<close>\<close>

definition turn_INS_PREP :: "turn \<Rightarrow> walk_T \<Rightarrow> outcome \<times> walk_T" where
  "turn_INS_PREP t w =
     (if did_del t then (STAYED, set_state w (w_depth w) STATE_SWAP)
      else (STAYED, set_state w (w_depth w) (if finds_byte t then STATE_INS else STATE_SWAP)))"

text \<open>
  \<^verbatim>\<open>case STATE_DEL:\<close> \<^verbatim>\<open>newscore\<close> is \<^verbatim>\<open>2 * SCORE_DEL / 3\<close> for a vowel at the start of a
  sound-folded word. Without a frame to go to, the turn falls through to
  \<^verbatim>\<open>STATE_INS_PREP\<close>.
\<close>

definition turn_DEL :: "extern \<Rightarrow> walk_env \<Rightarrow> turn \<Rightarrow> walk_T \<Rightarrow> outcome \<times> walk_T" where
  "turn_DEL X env t w =
     (let d = w_depth w in
      if has_mbyte_now t \<and> in_tchar t then (STAYED, set_state w d STATE_FINAL)
      else
        (let w1 = set_state w d STATE_INS_PREP;
             newscore = (if soundfold env \<and> star_first t then c_div (2 * SCORE_DEL) 3
                         else SCORE_DEL) in
         if \<not> fword_nul t \<and> TRY_DEEPER X w1 newscore then
           (PUSHED newscore,
            set_frame (go_deeper w1 newscore) (d + 1)
              (\<lambda>sp. sp\<lparr> ts_score := ts_score sp
                           - (if bonus t \<in> {BONUS_DELCOMP, BONUS_DELDUP}
                              then bonus_amount (bonus t) else 0) \<rparr>))
         else turn_INS_PREP t w1))"

text \<open>
  \<^verbatim>\<open>case STATE_INS:\<close> \<^verbatim>\<open>newscore\<close> is \<^verbatim>\<open>2 * SCORE_INS / 3\<close> for a vowel at the start of a
  sound-folded word.
\<close>

definition turn_INS :: "extern \<Rightarrow> walk_env \<Rightarrow> turn \<Rightarrow> walk_T \<Rightarrow> outcome \<times> walk_T" where
  "turn_INS X env t w =
     (let d = w_depth w in
      if node_done t then (STAYED, set_state w d STATE_SWAP)
      else if out_of_bounds t then (STAYED, w\<lparr> w_got_int := True \<rparr>)
      else
        (let newscore = (if soundfold env \<and> star_first t then c_div (2 * SCORE_INS) 3
                         else SCORE_INS) in
         if \<not> byte_same t \<and> TRY_DEEPER X w newscore then
           (PUSHED newscore,
            set_frame (go_deeper w newscore) (d + 1)
              (\<lambda>sp. sp\<lparr> ts_score := ts_score sp
                           - (if bonus t = BONUS_INSDUP then bonus_amount (bonus t)
                              else 0) \<rparr>))
         else (STAYED, w)))"

text \<open>
  The turns that change \<^verbatim>\<open>fword\<close> and undo the change later go deeper with a fixed cost
  and leave the state that undoes the change in the frame they come from.
\<close>

definition try_change ::
  "extern \<Rightarrow> walk_T \<Rightarrow> int \<Rightarrow> state_T \<Rightarrow> state_T \<Rightarrow> outcome \<times> walk_T" where
  "try_change X w cost undo otherwise =
     (if TRY_DEEPER X w cost
      then (PUSHED cost, set_state (go_deeper w cost) (w_depth w) undo)
      else (STAYED, set_state w (w_depth w) otherwise))"

text \<open>\<^verbatim>\<open>case STATE_SWAP:\<close>\<close>

definition turn_SWAP :: "extern \<Rightarrow> walk_env \<Rightarrow> turn \<Rightarrow> walk_T \<Rightarrow> outcome \<times> walk_T" where
  "turn_SWAP X env t w =
     (let d = w_depth w in
      if fword_nul t then (STAYED, set_state w d STATE_FINAL)
      else if \<not> soundfold env \<and> c_nonword t then (STAYED, set_state w d STATE_REP_INI)
      else if c2_nul t then (STAYED, set_state w d STATE_REP_INI)
      else if c_eq_c2 t then (STAYED, set_state w d STATE_SWAP3)
      else try_change X w SCORE_SWAP STATE_UNSWAP STATE_REP_INI)"

text \<open>\<^verbatim>\<open>case STATE_SWAP3:\<close>, to which \<^verbatim>\<open>STATE_UNSWAP\<close> falls through.\<close>

definition turn_SWAP3 :: "extern \<Rightarrow> walk_env \<Rightarrow> turn \<Rightarrow> walk_T \<Rightarrow> outcome \<times> walk_T" where
  "turn_SWAP3 X env t w =
     (if c3_same_or_nul t then (STAYED, set_state w (w_depth w) STATE_REP_INI)
      else try_change X w SCORE_SWAP3 STATE_UNSWAP3 STATE_REP_INI)"

text \<open>\<^verbatim>\<open>case STATE_UNSWAP3:\<close>\<close>

definition turn_UNSWAP3 :: "extern \<Rightarrow> walk_env \<Rightarrow> turn \<Rightarrow> walk_T \<Rightarrow> outcome \<times> walk_T" where
  "turn_UNSWAP3 X env t w =
     (if \<not> soundfold env \<and> c_nonword t then (STAYED, set_state w (w_depth w) STATE_REP_INI)
      else try_change X w SCORE_SWAP3 STATE_UNROT3L STATE_REP_INI)"

text \<open>\<^verbatim>\<open>case STATE_REP:\<close>\<close>

definition turn_REP :: "extern \<Rightarrow> walk_env \<Rightarrow> turn \<Rightarrow> walk_T \<Rightarrow> outcome \<times> walk_T" where
  "turn_REP X env t w =
     (if rep_matches t then try_change X w SCORE_REP STATE_REP_UNDO STATE_FINAL
      else (STAYED, set_state w (w_depth w) STATE_FINAL))"

text \<open>
  \<^verbatim>\<open>case STATE_REP_INI:\<close>, to which \<^verbatim>\<open>STATE_UNROT3R\<close> falls through, and which falls
  through to \<^verbatim>\<open>STATE_REP\<close>.
\<close>

definition turn_REP_INI :: "extern \<Rightarrow> walk_env \<Rightarrow> turn \<Rightarrow> walk_T \<Rightarrow> outcome \<times> walk_T" where
  "turn_REP_INI X env t w =
     (if (no_rep t \<and> \<not> soundfold env)
         \<or> ts_score (last (w_stack w)) + SCORE_REP \<ge> w_maxscore w
         \<or> \<not> may_change t
      then (STAYED, set_state w (w_depth w) STATE_FINAL)
      else if no_first t then (STAYED, set_state w (w_depth w) STATE_FINAL)
      else turn_REP X env t (set_state w (w_depth w) STATE_REP))"

text \<open>One turn of \<^verbatim>\<open>while (depth >= 0 && !got_int)\<close>, for a stack that is not empty.\<close>

definition trie_turn :: "extern \<Rightarrow> walk_env \<Rightarrow> turn \<Rightarrow> walk_T \<Rightarrow> outcome \<times> walk_T" where
  "trie_turn X env t w =
     (case ts_state (last (w_stack w)) of
        STATE_START \<Rightarrow> turn_START X env t w
      | STATE_NOPREFIX \<Rightarrow> turn_START X env t w
      | STATE_SPLITUNDO \<Rightarrow> (STAYED, set_state w (w_depth w) STATE_START)
      | STATE_ENDNUL \<Rightarrow> turn_ENDNUL X env t w
      | STATE_PLAIN \<Rightarrow> turn_PLAIN X env t w
      | STATE_DEL \<Rightarrow> turn_DEL X env t w
      | STATE_INS_PREP \<Rightarrow> turn_INS_PREP t w
      | STATE_INS \<Rightarrow> turn_INS X env t w
      | STATE_SWAP \<Rightarrow> turn_SWAP X env t w
      | STATE_UNSWAP \<Rightarrow> turn_SWAP3 X env t w
      | STATE_SWAP3 \<Rightarrow> turn_SWAP3 X env t w
      | STATE_UNSWAP3 \<Rightarrow> turn_UNSWAP3 X env t w
      | STATE_UNROT3L \<Rightarrow> try_change X w SCORE_SWAP3 STATE_UNROT3R STATE_REP_INI
      | STATE_UNROT3R \<Rightarrow> turn_REP_INI X env t w
      | STATE_REP_INI \<Rightarrow> turn_REP_INI X env t w
      | STATE_REP \<Rightarrow> turn_REP X env t w
      | STATE_REP_UNDO \<Rightarrow> (STAYED, set_state w (w_depth w) STATE_REP)
      | STATE_FINAL \<Rightarrow>
          (POPPED, w\<lparr> w_stack := butlast (w_stack w),
                     w_got_int := (w_got_int w \<or> interrupted t) \<rparr>))"

text \<open>
  The state in which the loop starts: \<^verbatim>\<open>depth = 0\<close>, a cleared frame, and the prefix tree
  first when there is one and the walk is not in the soundfold tree.
\<close>

definition walk_start :: "walk_env \<Rightarrow> int \<Rightarrow> bool \<Rightarrow> walk_T" where
  "walk_start env su_maxscore0 got_int0 =
     \<lparr> w_stack =
         [\<lparr> ts_state = (if pbyts_set env then STATE_NOPREFIX else STATE_START),
            ts_score = 0,
            ts_prefixdepth = (if pbyts_set env then PFD_PREFIXTREE else PFD_NOPREFIX) \<rparr>],
       w_maxscore = su_maxscore0, w_got_int = got_int0 \<rparr>"

text \<open>
  The loop, for the turns given: it ends at \<^verbatim>\<open>depth < 0\<close> or \<^verbatim>\<open>got_int\<close>, and the list of
  what the turns read ends the model's walk where the list ends.
\<close>

fun suggest_trie_walk :: "extern \<Rightarrow> walk_env \<Rightarrow> turn list \<Rightarrow> walk_T \<Rightarrow> walk_T" where
  "suggest_trie_walk X env [] w = w"
| "suggest_trie_walk X env (t # ts) w =
     (if w_stack w = [] \<or> w_got_int w then w
      else suggest_trie_walk X env ts (snd (trie_turn X env t w)))"


text \<open>
  For the proofs: a frame of the prefix tree that the walk has not looked at yet, and what
  holds of the frames below the current one and of the current one throughout a walk.
\<close>

definition fresh_prefix :: "trystate_T \<Rightarrow> bool" where
  "fresh_prefix f =
     (ts_prefixdepth f = PFD_PREFIXTREE \<and> (ts_state f = STATE_START \<or> ts_state f = STATE_NOPREFIX))"

definition frame_ok :: "trystate_T \<Rightarrow> bool" where
  "frame_ok f = (ts_state f = STATE_SPLITUNDO \<longrightarrow> ts_prefixdepth f \<noteq> PFD_PREFIXTREE)"

definition walk_inv :: "walk_T \<Rightarrow> bool" where
  "walk_inv w =
     (list_all frame_ok (w_stack w)
      \<and> list_all (\<lambda>f. \<not> fresh_prefix f) (butlast (w_stack w))
      \<and> (w_stack w \<noteq> [] \<and> fresh_prefix (last (w_stack w))
            \<longrightarrow> ts_score (last (w_stack w)) < w_maxscore w))"

text \<open>
  For the proofs: what every turn does to a stack \<open>fs @ [sp]\<close>. A turn that goes deeper
  does so below \<open>MAXWLEN - 1\<close>, leaves the frames under the current one alone and gives the
  new frame a score of at most the score of the current one plus the cost; and either the
  score of the current frame plus the cost is below \<^verbatim>\<open>su_maxscore\<close>, or the turn is the one
  that leaves the prefix tree, with the cost 0 and \<^verbatim>\<open>su_maxscore\<close> as it was.
\<close>

definition turn_ok ::
  "extern \<Rightarrow> trystate_T list \<Rightarrow> trystate_T \<Rightarrow> int \<Rightarrow> outcome \<times> walk_T \<Rightarrow> bool" where
  "turn_ok X fs sp ms r =
     (case fst r of
        PUSHED add \<Rightarrow>
          int (length fs) < MAXWLEN X - 1
          \<and> (\<exists>sp' c. w_stack (snd r) = fs @ [sp', c] \<and> ts_score c \<le> ts_score sp + add)
          \<and> (ts_score sp + add < w_maxscore (snd r)
              \<or> (fresh_prefix sp \<and> add = 0 \<and> w_maxscore (snd r) = ms))
      | STAYED \<Rightarrow> (\<exists>sp'. w_stack (snd r) = fs @ [sp'])
      | POPPED \<Rightarrow> w_stack (snd r) = fs)"

subsection \<open>Edit scripts, for the proofs about the two edit scores\<close>


text \<open>
  \<open>al E slang x y c\<close>: an edit script of score \<open>c\<close> turns the characters \<open>x\<close> into the
  characters \<open>y\<close>. A script keeps a character, replaces it by a different one, deletes it,
  inserts one or swaps two different neighbours, and scores these steps as both scorers
  do.
\<close>

inductive al :: "encoding \<Rightarrow> slang option \<Rightarrow> nat list \<Rightarrow> nat list \<Rightarrow> int \<Rightarrow> bool"
  for E :: encoding and slang :: "slang option" where
  al_nil: "al E slang [] [] 0"
| al_same: "al E slang x y c \<Longrightarrow> al E slang (a # x) (a # y) c"
| al_subst: "a \<noteq> b \<Longrightarrow> al E slang x y c
               \<Longrightarrow> al E slang (a # x) (b # y) (subst_score E slang a b + c)"
| al_del: "al E slang x y c \<Longrightarrow> al E slang (a # x) y (SCORE_DEL + c)"
| al_ins: "al E slang x y c \<Longrightarrow> al E slang x (b # y) (SCORE_INS + c)"
| al_swap: "a \<noteq> b \<Longrightarrow> al E slang x y c
              \<Longrightarrow> al E slang (a # b # x) (b # a # y) (SCORE_SWAP + c)"









subsection \<open>The stack of spell_edit_score_limit, for the proof that ten entries are enough\<close>





subsection \<open>A sample environment for the concrete evaluations\<close>

text \<open>
  The sample for the functions of spell.c and of the C library: no limit below 254
  bytes, sound folding and case folding that leave a word as it is, a spell checker that
  flags nothing, \<^verbatim>\<open>make_case_word\<close> that copies the word when no flag is set and writes it
  in capitals otherwise, and an insertion sort for \<^verbatim>\<open>qsort\<close>.
\<close>

fun insert_by :: "('a \<Rightarrow> 'a \<Rightarrow> int) \<Rightarrow> 'a \<Rightarrow> 'a list \<Rightarrow> 'a list" where
  "insert_by cmp x [] = [x]"
| "insert_by cmp x (y # ys) = (if cmp x y \<le> 0 then x # y # ys else y # insert_by cmp x ys)"

definition insertion_sort :: "('a \<Rightarrow> 'a \<Rightarrow> int) \<Rightarrow> 'a list \<Rightarrow> 'a list" where
  "insertion_sort cmp xs = foldr (insert_by cmp) xs []"

definition upper_byte :: "char \<Rightarrow> char" where
  "upper_byte c = (let n = (of_char c :: nat) in if 97 \<le> n \<and> n \<le> 122 then char_of (n - 32) else c)"

definition sample_extern :: extern where
  "sample_extern = \<lparr> enc = single_byte, MAXWLEN = 254,
     spell_soundfold = (\<lambda>sl w folded. w), spell_casefold = (\<lambda>w. w),
     spell_check_bad = (\<lambda>w. False),
     make_case_word = (\<lambda>w flags. if flags = 0 then w else map upper_byte w),
     qsort = insertion_sort \<rparr>"


text \<open>
  A sample language with sound folding, a sample entry (no bonus, no language) and the
  sample info for a bad word that is all of the text, in small letters:
  \<^verbatim>\<open>su_maxcount\<close> 3 and the initial \<^verbatim>\<open>su_maxscore\<close>.
\<close>

definition sample_lang :: slang where
  "sample_lang = \<lparr> sl_id = 1, sl_sal_len = 1, sl_has_map = False, sl_map_array = [],
     sl_map_hash = [] \<rparr>"

definition sample_entry :: "string \<Rightarrow> int \<Rightarrow> int \<Rightarrow> suggest_T" where
  "sample_entry w orglen score =
     \<lparr> st_word = w, st_wordlen = int (length w), st_orglen = orglen, st_score = score,
       st_altscore = 0, st_salscore = False, st_had_bonus = False, st_slang = None \<rparr>"

definition sample_info :: "string \<Rightarrow> suginfo_T" where
  "sample_info bad =
     \<lparr> su_ga = [], su_maxcount = 3, su_maxscore = SCORE_MAXINIT, su_sfmaxscore = 0,
       su_sga = [], su_badptr = bad, su_badlen = int (length bad), su_badflags = 0,
       su_badword = bad, su_fbadword = bad, su_sal_badword = bad, su_banned = {},
       su_sallang = None \<rparr>"

text \<open>A list that one more entry makes longer than \<open>SUG_MAX_COUNT\<close>: 200 entries.\<close>

definition sample_full_info :: suginfo_T where
  "sample_full_info = (sample_info ''thm'')\<lparr> su_ga := replicate 200 (sample_entry ''x'' 3 10) \<rparr>"

text \<open>
  The spec's words for what the two loops do with the entwined lists: deduplicated by
  word. Of the entries with the same word the first one stays.
\<close>

fun dedup_by_word :: "suggest_T list \<Rightarrow> suggest_T list" where
  "dedup_by_word [] = []"
| "dedup_by_word (x # xs) = x # dedup_by_word (filter (\<lambda>y. st_word y \<noteq> st_word x) xs)"

text \<open>A sample for \<^verbatim>\<open>score_combine\<close>: the bad word \<open>hte\<close> with two lists of suggestions.\<close>

definition sample_double_info :: suginfo_T where
  "sample_double_info = (sample_info ''hte'')
     \<lparr> su_ga := [sample_entry ''theeeee'' 3 100, sample_entry ''the'' 3 65],
       su_sga := [sample_entry ''tea'' 3 100, sample_entry ''the'' 3 80] \<rparr>"


text \<open>
  A sample for the walk: a language with postponed prefixes, walked with the word
  trees, and a turn in which every test of the tree and of the words fails.
\<close>

definition sample_env :: walk_env where
  "sample_env = \<lparr> soundfold = False, has_pbyts = True \<rparr>"

definition sample_turn :: turn where
  "sample_turn =
     \<lparr> prefix_nul = False, past_nul = False, new_maxscore = 0, tries_split = False,
       split_newscore = 0, split_skips = False, fword_nul = False, in_tchar = False,
       node_done = False, may_change = False, byte_same = False, in_diff = False,
       did_del = False, del_same = False, bonus = NO_BONUS, has_mbyte_now = False,
       star_first = False, finds_byte = False, out_of_bounds = False, c_nonword = False,
       c2_nul = False, c_eq_c2 = False, c3_same_or_nul = False, no_rep = False,
       no_first = False, rep_matches = False, interrupted = False \<rparr>"


section \<open>Theorems\<close>

subsection \<open>bytes2offset decodes the variable-width table\<close>

lemma and_0x80_low: "x < 128 \<Longrightarrow> int x AND 0x80 = 0"
proof -
  have "\<forall>x \<in> set [0..<128::nat]. int x AND 0x80 = 0"
    by (simp add: upt_rec)
  then show "x < 128 \<Longrightarrow> int x AND 0x80 = 0" by simp
qed

lemma and_tag2:
  "x < 64 \<Longrightarrow> (128 + int x) AND 0x80 = 0x80 \<and> (128 + int x) AND 0xc0 = 0x80
     \<and> (128 + int x) AND 0x3f = int x"
proof -
  have "\<forall>x \<in> set [0..<64::nat]. (128 + int x) AND 0x80 = 0x80
      \<and> (128 + int x) AND 0xc0 = 0x80 \<and> (128 + int x) AND 0x3f = int x"
    by (simp add: upt_rec)
  then show "x < 64 \<Longrightarrow> (128 + int x) AND 0x80 = 0x80 \<and> (128 + int x) AND 0xc0 = 0x80
     \<and> (128 + int x) AND 0x3f = int x" by simp
qed

lemma and_tag3:
  "x < 32 \<Longrightarrow> (192 + int x) AND 0x80 = 0x80 \<and> (192 + int x) AND 0xc0 = 0xc0
     \<and> (192 + int x) AND 0xe0 = 0xc0 \<and> (192 + int x) AND 0x1f = int x"
proof -
  have "\<forall>x \<in> set [0..<32::nat]. (192 + int x) AND 0x80 = 0x80
      \<and> (192 + int x) AND 0xc0 = 0xc0 \<and> (192 + int x) AND 0xe0 = 0xc0
      \<and> (192 + int x) AND 0x1f = int x"
    by (simp add: upt_rec)
  then show "x < 32 \<Longrightarrow> (192 + int x) AND 0x80 = 0x80 \<and> (192 + int x) AND 0xc0 = 0xc0
     \<and> (192 + int x) AND 0xe0 = 0xc0 \<and> (192 + int x) AND 0x1f = int x" by simp
qed

lemma and_tag4:
  "x < 16 \<Longrightarrow> (224 + int x) AND 0x80 = 0x80 \<and> (224 + int x) AND 0xc0 = 0xc0
     \<and> (224 + int x) AND 0xe0 = 0xe0 \<and> (224 + int x) AND 0x0f = int x"
proof -
  have "\<forall>x \<in> set [0..<16::nat]. (224 + int x) AND 0x80 = 0x80
      \<and> (224 + int x) AND 0xc0 = 0xc0 \<and> (224 + int x) AND 0xe0 = 0xe0
      \<and> (224 + int x) AND 0x0f = int x"
    by (simp add: upt_rec)
  then show "x < 16 \<Longrightarrow> (224 + int x) AND 0x80 = 0x80 \<and> (224 + int x) AND 0xc0 = 0xc0
     \<and> (224 + int x) AND 0xe0 = 0xe0 \<and> (224 + int x) AND 0x0f = int x" by simp
qed

lemma bytes2offset_1:
  "uint c = int x \<Longrightarrow> x < 128 \<Longrightarrow> bytes2offset (c # p) = Some (int x - 1, p)"
  by (simp add: and_0x80_low)

lemma bytes2offset_2:
  "uint c = 128 + int x \<Longrightarrow> x < 64 \<Longrightarrow>
   bytes2offset (c # y # p) = Some ((int x - 1) * 255 + (uint y - 1), p)"
  using and_tag2 [of x] by simp

lemma bytes2offset_3:
  "uint c = 192 + int x \<Longrightarrow> x < 32 \<Longrightarrow>
   bytes2offset (c # y # z # p)
     = Some (((int x - 1) * 255 + (uint y - 1)) * 255 + (uint z - 1), p)"
  using and_tag3 [of x] by simp

lemma bytes2offset_4:
  "uint c = 224 + int x \<Longrightarrow> x < 16 \<Longrightarrow>
   bytes2offset (c # y # z # w # p)
     = Some ((((int x - 1) * 255 + (uint y - 1)) * 255 + (uint z - 1)) * 255 + (uint w - 1), p)"
  using and_tag4 [of x] by simp

text \<open>
  Claim C9. A first byte \<open>0xxxxxxx\<close> (value \<open>x < 128\<close>) decodes to \<open>x - 1\<close>; a first byte
  \<open>10xxxxxx\<close> (value \<open>128 + x\<close>, \<open>x < 64\<close>) followed by \<open>y\<close> decodes to
  \<open>(x - 1) * 255 + (y - 1)\<close>; a first byte \<open>110xxxxx\<close> (value \<open>192 + x\<close>, \<open>x < 32\<close>) followed
  by \<open>y\<close>, \<open>z\<close> decodes to \<open>((x - 1) * 255 + (y - 1)) * 255 + (z - 1)\<close>; a first byte
  \<open>1110xxxx\<close> (value \<open>224 + x\<close>, \<open>x < 16\<close>) followed by \<open>y\<close>, \<open>z\<close>, \<open>w\<close> extends the scheme by
  one level. In each case the pointer is left exactly behind the bytes read (1, 2, 3 or 4
  of them): what remains is \<open>p\<close>.
\<close>

theorem bytes2offset_table:
  "(uint c = int x \<and> x < 128 \<longrightarrow> bytes2offset (c # p) = Some (int x - 1, p)) \<and>
   (uint c = 128 + int x \<and> x < 64 \<longrightarrow>
      bytes2offset (c # y # p) = Some ((int x - 1) * 255 + (uint y - 1), p)) \<and>
   (uint c = 192 + int x \<and> x < 32 \<longrightarrow>
      bytes2offset (c # y # z # p)
        = Some (((int x - 1) * 255 + (uint y - 1)) * 255 + (uint z - 1), p)) \<and>
   (uint c = 224 + int x \<and> x < 16 \<longrightarrow>
      bytes2offset (c # y # z # w # p)
        = Some ((((int x - 1) * 255 + (uint y - 1)) * 255 + (uint z - 1)) * 255
                  + (uint w - 1), p))"
  using bytes2offset_1 bytes2offset_2 bytes2offset_3 bytes2offset_4 by blast

theorem bytes2offset_table_witness:
  "bytes2offset [0x05, 0x63] = Some (4, [0x63]) \<and>
   bytes2offset [0x82, 0x03, 0x63] = Some (257, [0x63]) \<and>
   bytes2offset [0xc2, 0x03, 0x04, 0x63] = Some (65538, [0x63]) \<and>
   bytes2offset [0xe2, 0x03, 0x04, 0x05, 0x63] = Some (16712194, [0x63])"
  using bytes2offset_table [of "0x05" 5 "[0x63]"]
    bytes2offset_table [of "0x82" 2 "[0x63]" 3]
    bytes2offset_table [of "0xc2" 2 "[0x63]" 3 4]
    bytes2offset_table [of "0xe2" 2 "[0x63]" 3 4 5]
  by simp


subsection \<open>spell_edit_score and its transposition\<close>

lemma similar_chars_sym: "similar_chars sl c1 c2 = similar_chars sl c2 c1"
  by (auto simp: similar_chars_def Let_def)

lemma subst_score_sym: "subst_score E slang bc gc = subst_score E slang gc bc"
  by (auto simp: subst_score_def similar_chars_sym split: option.splits)

lemma take_lower_eq_min: "take_lower a b = min a b"
  by (simp add: take_lower_def)

lemma CNT_transpose:
  "CNT E slang wb wg i j
     = CNT E slang wg wb j i + (SCORE_INS - SCORE_DEL) * (int j - int i)"
proof (induction E slang wb wg i j rule: CNT.induct)
  case (1 E slang wb wg)
  show ?case by simp
next
  case (2 E slang wb wg j)
  then show ?case by (simp add: algebra_simps)
next
  case (3 E slang wb wg i)
  then show ?case by (simp add: algebra_simps)
next
  case (4 E slang wb wg i j)
  let ?k = "(SCORE_INS - SCORE_DEL) * (int (Suc j) - int (Suc i))"
  have diag: "CNT E slang wb wg i j = CNT E slang wg wb j i + ?k"
  proof (cases "wb ! i = wg ! j")
    case True
    then show ?thesis using "4.IH"(1) by simp
  next
    case False
    show ?thesis
    proof (cases "1 < Suc i \<and> 1 < Suc j \<and> wb ! i = wg ! (j - 1) \<and> wb ! (i - 1) = wg ! j")
      case True
      then show ?thesis using "4.IH"(5) [OF False True] by simp
    next
      case nsw: False
      then show ?thesis using "4.IH"(6) [OF False nsw] by simp
    qed
  qed
  show ?case
  proof (cases "wb ! i = wg ! j")
    case True
    with diag show ?thesis by simp
  next
    case False
    then have ne: "wg ! j \<noteq> wb ! i" by simp
    let ?sw = "1 < Suc i \<and> 1 < Suc j \<and> wb ! i = wg ! (j - 1) \<and> wb ! (i - 1) = wg ! j"
    have sw': "(1 < Suc j \<and> 1 < Suc i \<and> wg ! j = wb ! (i - 1) \<and> wg ! (j - 1) = wb ! i) = ?sw"
      by auto
    have ins: "SCORE_INS + CNT E slang wb wg (Suc i) j
        = (SCORE_DEL + CNT E slang wg wb j (Suc i)) + ?k"
      using "4.IH"(2) [OF False] by (simp add: algebra_simps)
    have del: "SCORE_DEL + CNT E slang wb wg i (Suc j)
        = (SCORE_INS + CNT E slang wg wb (Suc j) i) + ?k"
      using "4.IH"(3) [OF False] by (simp add: algebra_simps)
    have sub: "subst_score E slang (wb ! i) (wg ! j) + CNT E slang wb wg i j
        = (subst_score E slang (wg ! j) (wb ! i) + CNT E slang wg wb j i) + ?k"
      using diag subst_score_sym [of E slang "wb ! i" "wg ! j"] by simp
    have swp: "?sw \<Longrightarrow> SCORE_SWAP + CNT E slang wb wg (i - 1) (j - 1)
        = (SCORE_SWAP + CNT E slang wg wb (j - 1) (i - 1)) + ?k"
      using "4.IH"(4) [OF False] by (auto simp: algebra_simps of_nat_diff)
    have L: "CNT E slang wb wg (Suc i) (Suc j)
        = min (SCORE_INS + CNT E slang wb wg (Suc i) j)
            (min (SCORE_DEL + CNT E slang wb wg i (Suc j))
               (if ?sw then min (SCORE_SWAP + CNT E slang wb wg (i - 1) (j - 1))
                              (subst_score E slang (wb ! i) (wg ! j) + CNT E slang wb wg i j)
                else subst_score E slang (wb ! i) (wg ! j) + CNT E slang wb wg i j))"
      using False by (simp add: take_lower_eq_min)
    have R: "CNT E slang wg wb (Suc j) (Suc i)
        = min (SCORE_INS + CNT E slang wg wb (Suc j) i)
            (min (SCORE_DEL + CNT E slang wg wb j (Suc i))
               (if ?sw then min (SCORE_SWAP + CNT E slang wg wb (j - 1) (i - 1))
                              (subst_score E slang (wg ! j) (wb ! i) + CNT E slang wg wb j i)
                else subst_score E slang (wg ! j) (wb ! i) + CNT E slang wg wb j i))"
      using ne sw' by (simp add: take_lower_eq_min)
    show ?thesis
    proof (cases ?sw)
      case True
      show ?thesis
        unfolding L R ins del sub swp [OF True] using True
        by (simp only: if_True) (simp add: min_def)
    next
      case nsw: False
      show ?thesis
        unfolding L R ins del sub using nsw
        by (simp only: if_False)
    qed
  qed
qed

text \<open>
  Claim C8, as amended. With the matrix allocated, for every pair of words and every
  language (with or without a map of similar characters), the score of turning \<open>a\<close> into
  \<open>b\<close> is the score of turning \<open>b\<close> into \<open>a\<close> plus \<open>SCORE_INS - SCORE_DEL = 2\<close> for every
  character \<open>b\<close> has more than \<open>a\<close>: an insertion costs 96 and a deletion 94. The two
  scores are equal exactly when the words have the same number of characters.
\<close>

theorem spell_edit_score_transposed:
  "spell_edit_score E True slang a b
     = spell_edit_score E True slang b a
       + 2 * (int (length (word_chars E b)) - int (length (word_chars E a)))"
  using CNT_transpose [of E slang "word_chars E a" "word_chars E b"
      "length (word_chars E a) - 1" "length (word_chars E b) - 1"]
  by (simp add: spell_edit_score_def Let_def word_chars_def SCORE_INS_def SCORE_DEL_def
      algebra_simps)

theorem spell_edit_score_transposed_witness:
  "spell_edit_score single_byte True None ''hte'' ''the'' = 75
   \<and> spell_edit_score single_byte True None ''the'' ''hte'' = 75
   \<and> spell_edit_score single_byte True None ''thm'' ''them'' = 96
   \<and> spell_edit_score single_byte True None ''them'' ''thm'' = 94"
proof -
  have a: "spell_edit_score single_byte True None ''the'' ''hte'' = 75" by code_simp
  have b: "spell_edit_score single_byte True None ''them'' ''thm'' = 94" by code_simp
  have c: "int (length (word_chars single_byte ''the'')) = 4
         \<and> int (length (word_chars single_byte ''hte'')) = 4
         \<and> int (length (word_chars single_byte ''them'')) = 5
         \<and> int (length (word_chars single_byte ''thm'')) = 4"
    by (simp add: word_chars_def single_byte_def)
  show ?thesis
    using spell_edit_score_transposed [of single_byte None "''hte''" "''the''"]
      spell_edit_score_transposed [of single_byte None "''thm''" "''them''"] a b c
    by simp
qed

text \<open>
  The claim as stated fails: without any map, turning \<open>a\<close> into the empty word is one
  deletion (94) and turning the empty word into \<open>a\<close> is one insertion (96).
\<close>

theorem spell_edit_score_not_symmetric:
  "spell_edit_score single_byte True None ''a'' '''' = 94
   \<and> spell_edit_score single_byte True None '''' ''a'' = 96"
  by (simp add: spell_edit_score_def word_chars_def single_byte_def SCORE_DEL_def
      SCORE_INS_def)

subsection \<open>sug_compare is a comparison function qsort can use\<close>

lemma lower_byte_nonneg: "0 \<le> lower_byte c"
  by (simp add: lower_byte_def Let_def)

lemma lower_byte_zero_iff: "lower_byte c = 0 \<longleftrightarrow> c = CHR 0x00"
proof
  assume "lower_byte c = 0"
  then have "(of_char c :: nat) = 0"
    by (auto simp: lower_byte_def Let_def split: if_splits)
  then have "(of_char c :: nat) = of_char (CHR 0x00)" by simp
  then show "c = CHR 0x00" by (simp only: of_char_eq_iff)
next
  assume "c = CHR 0x00"
  then show "lower_byte c = 0" by (simp add: lower_byte_def)
qed

lemma STRICMP_flip: "STRICMP b a = - STRICMP a b"
proof (induction a b rule: STRICMP.induct)
  case (4 x xs y ys)
  then show ?case
    using lower_byte_zero_iff [of x] lower_byte_zero_iff [of y] by auto
qed simp_all

lemma STRICMP_trans:
  "STRICMP a b \<le> 0 \<Longrightarrow> STRICMP b c \<le> 0 \<Longrightarrow> STRICMP a c \<le> 0"
proof (induction a arbitrary: b c)
  case Nil
  then show ?case using lower_byte_nonneg by (cases c) auto
next
  case (Cons x xs)
  show ?case
  proof (cases b)
    case Nil
    with Cons.prems(1) have x0: "x = CHR 0x00"
      using lower_byte_zero_iff [of x] lower_byte_nonneg [of x] by simp
    show ?thesis
    proof (cases c)
      case Nil
      with x0 show ?thesis by (simp add: lower_byte_def)
    next
      case (Cons z zs)
      with x0 show ?thesis
        using lower_byte_nonneg [of z] lower_byte_zero_iff [of x] by auto
    qed
  next
    case b: (Cons y ys)
    show ?thesis
    proof (cases c)
      case Nil
      with Cons.prems(2) b have y0: "y = CHR 0x00"
        using lower_byte_zero_iff [of y] lower_byte_nonneg [of y] by simp
      with Cons.prems(1) b have "lower_byte x \<le> 0"
        using lower_byte_zero_iff [of y] by (auto split: if_splits)
      with Nil show ?thesis by simp
    next
      case c: (Cons z zs)
      show ?thesis
        using Cons.prems Cons.IH [of ys zs] b c
          lower_byte_zero_iff [of x] lower_byte_zero_iff [of y] lower_byte_zero_iff [of z]
        by (auto split: if_splits)
    qed
  qed
qed

lemma sug_compare_flip: "sug_compare b a = - sug_compare a b"
  using STRICMP_flip [of "st_word b" "st_word a"]
  by (auto simp: sug_compare_def Let_def)

lemma sug_compare_total: "sug_compare a b \<le> 0 \<or> sug_compare b a \<le> 0"
  using sug_compare_flip [of b a] by linarith

lemma sug_compare_trans:
  "sug_compare a b \<le> 0 \<Longrightarrow> sug_compare b c \<le> 0 \<Longrightarrow> sug_compare a c \<le> 0"
  using STRICMP_trans [of "st_word a" "st_word b" "st_word c"]
  by (auto simp: sug_compare_def Let_def split: if_splits)

subsection \<open>Insertion sort meets what is assumed of qsort\<close>

lemma mset_insert_by: "mset (insert_by cmp x xs) = add_mset x (mset xs)"
  by (induction xs) auto

lemma set_insert_by: "set (insert_by cmp x xs) = insert x (set xs)"
  by (induction xs) auto

lemma sorted_insert_by:
  assumes total: "\<And>a b. cmp a b \<le> 0 \<or> cmp b a \<le> 0"
    and trans: "\<And>a b c. cmp a b \<le> 0 \<Longrightarrow> cmp b c \<le> 0 \<Longrightarrow> cmp a c \<le> 0"
  shows "sorted_wrt (\<lambda>a b. cmp a b \<le> 0) xs
         \<Longrightarrow> sorted_wrt (\<lambda>a b. cmp a b \<le> (0::int)) (insert_by cmp x xs)"
proof (induction xs)
  case Nil
  show ?case by simp
next
  case (Cons y ys)
  show ?case
  proof (cases "cmp x y \<le> 0")
    case True
    then have "\<forall>z \<in> set ys. cmp x z \<le> 0"
      using Cons.prems trans by auto
    with True Cons.prems show ?thesis by simp
  next
    case False
    then have "cmp y x \<le> 0" using total [of x y] by simp
    with False Cons show ?thesis by (auto simp: set_insert_by)
  qed
qed

lemma insertion_sort_sorts:
  assumes total: "\<And>a b. cmp a b \<le> 0 \<or> cmp b a \<le> 0"
    and trans: "\<And>a b c. cmp a b \<le> 0 \<Longrightarrow> cmp b c \<le> 0 \<Longrightarrow> cmp a c \<le> 0"
  shows "mset (insertion_sort cmp xs) = mset xs
         \<and> sorted_wrt (\<lambda>a b. cmp a b \<le> (0::int)) (insertion_sort cmp xs)"
proof (induction xs)
  case Nil
  show ?case by (simp add: insertion_sort_def)
next
  case (Cons x xs)
  then show ?case
    using sorted_insert_by [of cmp "foldr (insert_by cmp) xs []" x, OF total trans]
    by (simp add: insertion_sort_def mset_insert_by)
qed

lemma qsort_sorts_sample: "qsort_sorts sample_extern sug_compare"
  unfolding qsort_sorts_def
  using insertion_sort_sorts [of sug_compare, OF sug_compare_total sug_compare_trans]
  by (simp add: sample_extern_def)

subsection \<open>add_suggestion: the minimizing loop and the search for an entry\<close>

lemma sug_minimize_single_byte:
  "sug_minimize E g b pg pb = (gl, bl) \<Longrightarrow> \<not> has_mbyte E
     \<Longrightarrow> 0 \<le> pg \<Longrightarrow> pg \<le> int (length g)
     \<Longrightarrow> 0 \<le> pb \<Longrightarrow> pb \<le> int (length b)
     \<Longrightarrow> 0 \<le> gl \<and> 0 \<le> bl \<and> pg - gl = pb - bl \<and> gl \<le> pg
         \<and> drop (nat gl) (take (nat pg) g) = drop (nat bl) (take (nat pb) b)
         \<and> (gl = 0 \<or> bl = 0 \<or> g ! (nat gl - 1) \<noteq> b ! (nat bl - 1))"
proof (induction E g b pg pb rule: sug_minimize.induct)
  case (1 E goodword badptr pgood pbad)
  note sb = "1.prems"(2)
  show ?case
  proof (cases "pgood \<le> 0 \<or> pbad \<le> 0")
    case True
    then have "gl = pgood" "bl = pbad"
      using "1.prems"(1) by (simp_all add: sug_minimize.simps)
    with True "1.prems" show ?thesis by auto
  next
    case False
    then have pos: "0 < pgood" "0 < pbad" by auto
    have bk: "MB_PTR_BACK E goodword pgood = pgood - 1" "MB_PTR_BACK E badptr pbad = pbad - 1"
      using sb by (simp_all add: MB_PTR_BACK_def)
    have ig: "nat (pgood - 1) < length goodword" using pos "1.prems" by auto
    have ib: "nat (pbad - 1) < length badptr" using pos "1.prems" by auto
    have ch: "ptr_char E goodword (pgood - 1) = of_char (goodword ! nat (pgood - 1))"
        "ptr_char E badptr (pbad - 1) = of_char (badptr ! nat (pbad - 1))"
      using sb ig ib by (simp_all add: ptr_char_def byte_at_def)
    show ?thesis
    proof (cases "goodword ! nat (pgood - 1) = badptr ! nat (pbad - 1)")
      case ne: False
      then have "gl = pgood" "bl = pbad"
        using "1.prems"(1) False bk ch
        by (simp_all add: sug_minimize.simps [of E goodword badptr pgood pbad])
      with ne pos show ?thesis by (simp add: nat_diff_distrib)
    next
      case eq: True
      have cont: "\<not> ptr_char E goodword (MB_PTR_BACK E goodword pgood)
                      \<noteq> ptr_char E badptr (MB_PTR_BACK E badptr pbad)"
        using eq bk ch by simp
      have rec: "sug_minimize E goodword badptr (pgood - 1) (pbad - 1) = (gl, bl)"
        using "1.prems"(1) False bk cont
        by (simp add: sug_minimize.simps [of E goodword badptr pgood pbad])
      have ih: "0 \<le> gl \<and> 0 \<le> bl \<and> (pgood - 1) - gl = (pbad - 1) - bl \<and> gl \<le> pgood - 1
         \<and> drop (nat gl) (take (nat (pgood - 1)) goodword)
             = drop (nat bl) (take (nat (pbad - 1)) badptr)
         \<and> (gl = 0 \<or> bl = 0 \<or> goodword ! (nat gl - 1) \<noteq> badptr ! (nat bl - 1))"
        using "1.IH" [OF False cont] rec pos "1.prems" bk sb by simp
      have tg: "take (nat pgood) goodword
                  = take (nat (pgood - 1)) goodword @ [goodword ! nat (pgood - 1)]"
        using ig pos take_Suc_conv_app_nth [of "nat (pgood - 1)" goodword]
        by (simp add: Suc_nat_eq_nat_zadd1)
      have tb: "take (nat pbad) badptr
                  = take (nat (pbad - 1)) badptr @ [badptr ! nat (pbad - 1)]"
        using ib pos take_Suc_conv_app_nth [of "nat (pbad - 1)" badptr]
        by (simp add: Suc_nat_eq_nat_zadd1)
      have lg: "nat gl \<le> length (take (nat (pgood - 1)) goodword)"
        using ih ig by auto
      have lb: "nat bl \<le> length (take (nat (pbad - 1)) badptr)"
        using ih ib by auto
      show ?thesis using ih eq lg lb unfolding tg tb by auto
    qed
  qed
qed

lemma sug_find_Some:
  "sug_find ga g gl bl = Some i \<Longrightarrow>
     i < length ga \<and> sug_same (ga ! i) g gl bl \<and> (\<forall>j<i. \<not> sug_same (ga ! j) g gl bl)"
proof (induction ga arbitrary: i)
  case Nil
  then show ?case by simp
next
  case (Cons stp ga)
  show ?case
  proof (cases "sug_same stp g gl bl")
    case True
    with Cons.prems show ?thesis by simp
  next
    case False
    with Cons.prems obtain k where k: "sug_find ga g gl bl = Some k" "i = Suc k" by auto
    from Cons.IH [OF k(1)] False k(2) show ?thesis
      by (auto simp: nth_Cons split: nat.splits)
  qed
qed

lemma sug_find_None:
  "sug_find ga g gl bl = None \<longleftrightarrow> (\<forall>stp \<in> set ga. \<not> sug_same stp g gl bl)"
  by (induction ga) auto

lemma get_ga_set_ga: "get_ga (set_ga su gap ga) gap = ga"
  by (cases gap) (simp_all add: get_ga_def set_ga_def)

lemma rescore_one_keeps:
  "st_word (rescore_one X su stp) = st_word stp
   \<and> st_wordlen (rescore_one X su stp) = st_wordlen stp
   \<and> st_orglen (rescore_one X su stp) = st_orglen stp
   \<and> st_slang (rescore_one X su stp) = st_slang stp"
  by (simp add: rescore_one_def Let_def split: option.splits)

lemma sug_found_score:
  "st_score (sug_found X su old badlen score altscore had_bonus slang)
     = min (st_score (if st_had_bonus old \<noteq> had_bonus \<and> had_bonus
                      then rescore_one X su
                             (if st_slang old = None then old\<lparr> st_slang := slang \<rparr> else old)
                      else old))
           (st_score (if st_had_bonus old \<noteq> had_bonus \<and> \<not> had_bonus
                      then rescore_one X su
                             \<lparr> st_word = st_word old, st_wordlen = st_wordlen old,
                               st_orglen = badlen, st_score = score, st_altscore = altscore,
                               st_salscore = False, st_had_bonus = had_bonus,
                               st_slang = (if st_slang old = None then slang
                                           else st_slang old) \<rparr>
                      else \<lparr> st_word = st_word old, st_wordlen = st_wordlen old,
                               st_orglen = badlen, st_score = score, st_altscore = altscore,
                               st_salscore = False, st_had_bonus = had_bonus,
                               st_slang = slang \<rparr>))"
  by (auto simp: sug_found_def Let_def min_def)

lemma sug_found_keeps:
  "st_word (sug_found X su old badlen score altscore had_bonus slang) = st_word old
   \<and> st_wordlen (sug_found X su old badlen score altscore had_bonus slang) = st_wordlen old
   \<and> st_orglen (sug_found X su old badlen score altscore had_bonus slang) = st_orglen old"
  using rescore_one_keeps [of X su]
  by (simp add: sug_found_def Let_def)

lemma sug_minimize_turns:
  "\<exists>n. sug_minimize E goodword badptr pgood pbad
         = (back_both E goodword badptr ^^ n) (pgood, pbad)
       \<and> (\<forall>k<n. same_last E goodword badptr ((back_both E goodword badptr ^^ k) (pgood, pbad)))
       \<and> \<not> same_last E goodword badptr ((back_both E goodword badptr ^^ n) (pgood, pbad))"
proof (induction E goodword badptr pgood pbad rule: sug_minimize.induct)
  case (1 E goodword badptr pgood pbad)
  show ?case
  proof (cases "same_last E goodword badptr (pgood, pbad)")
    case False
    then have "sug_minimize E goodword badptr pgood pbad = (pgood, pbad)"
      by (subst sug_minimize.simps) (auto simp: same_last_def)
    then have "sug_minimize E goodword badptr pgood pbad
                 = (back_both E goodword badptr ^^ 0) (pgood, pbad)
             \<and> (\<forall>k<0. same_last E goodword badptr
                         ((back_both E goodword badptr ^^ k) (pgood, pbad)))
             \<and> \<not> same_last E goodword badptr
                   ((back_both E goodword badptr ^^ 0) (pgood, pbad))"
      using False by simp
    then show ?thesis by blast
  next
    case True
    let ?p = "back_both E goodword badptr (pgood, pbad)"
    have c: "\<not> (pgood \<le> 0 \<or> pbad \<le> 0)"
      "\<not> ptr_char E goodword (MB_PTR_BACK E goodword pgood)
           \<noteq> ptr_char E badptr (MB_PTR_BACK E badptr pbad)"
      using True by (auto simp: same_last_def)
    have s: "sug_minimize E goodword badptr pgood pbad
               = sug_minimize E goodword badptr (fst ?p) (snd ?p)"
      using c by (subst sug_minimize.simps) (simp add: back_both_def)
    have pe: "(MB_PTR_BACK E goodword pgood, MB_PTR_BACK E badptr pbad) = ?p"
      "MB_PTR_BACK E goodword pgood = fst ?p" "MB_PTR_BACK E badptr pbad = snd ?p"
      by (simp_all add: back_both_def)
    obtain n where n: "sug_minimize E goodword badptr (fst ?p) (snd ?p)
                         = (back_both E goodword badptr ^^ n) ?p"
      "\<forall>k<n. same_last E goodword badptr ((back_both E goodword badptr ^^ k) ?p)"
      "\<not> same_last E goodword badptr ((back_both E goodword badptr ^^ n) ?p)"
      using "1.IH" [OF c] unfolding pe(1) unfolding pe(2,3) by blast
    have sh: "\<And>k. (back_both E goodword badptr ^^ k) ?p
                 = (back_both E goodword badptr ^^ Suc k) (pgood, pbad)"
      by (simp add: funpow_swap1)
    have a: "\<forall>k<Suc n. same_last E goodword badptr
                ((back_both E goodword badptr ^^ k) (pgood, pbad))"
    proof (intro allI impI)
      fix k assume k: "k < Suc n"
      show "same_last E goodword badptr ((back_both E goodword badptr ^^ k) (pgood, pbad))"
      proof (cases k)
        case 0
        then show ?thesis using True by simp
      next
        case (Suc j)
        then have "j < n" using k by simp
        then have "same_last E goodword badptr ((back_both E goodword badptr ^^ j) ?p)"
          using n(2) by blast
        then show ?thesis unfolding sh Suc .
      qed
    qed
    have "sug_minimize E goodword badptr pgood pbad
            = (back_both E goodword badptr ^^ Suc n) (pgood, pbad)"
      using s n(1) sh [of n] by simp
    moreover have "\<not> same_last E goodword badptr
                       ((back_both E goodword badptr ^^ Suc n) (pgood, pbad))"
      using n(3) sh [of n] by simp
    ultimately show ?thesis using a by blast
  qed
qed

lemma sug_minimize_the_hte:
  "sug_minimize single_byte ''the'' ''hte'' 3 3 = (2, 2)"
  by (simp add: sug_minimize.simps [of _ _ _ 3 3] sug_minimize.simps [of _ _ _ 2 2]
        MB_PTR_BACK_def ptr_char_def byte_at_def single_byte_def)

lemma sug_minimize_hte_hte:
  "sug_minimize single_byte ''hte'' ''hte'' 3 3 = (0, 0)"
  by (simp add: sug_minimize.simps [of _ _ _ 3 3] sug_minimize.simps [of _ _ _ 2 2]
        sug_minimize.simps [of _ _ _ 1 1] sug_minimize.simps [of _ _ _ 0 0]
        MB_PTR_BACK_def ptr_char_def byte_at_def single_byte_def)


lemma sug_minimize_them_thm:
  "sug_minimize single_byte ''them'' ''thm'' 4 3 = (3, 2)"
  by (simp add: sug_minimize.simps [of _ _ _ 4 3] sug_minimize.simps [of _ _ _ 3 2]
        MB_PTR_BACK_def ptr_char_def byte_at_def single_byte_def)


subsection \<open>cleanup_suggestions and the clean-up in add_suggestion\<close>

lemma sug_compare_order: "sug_compare a b \<le> 0 \<longleftrightarrow> in_suggest_order a b"
  by (auto simp: sug_compare_def in_suggest_order_def Let_def)

lemma sorted_wrt_sug_compare:
  "sorted_wrt (\<lambda>a b. sug_compare a b \<le> 0) xs = sorted_wrt in_suggest_order xs"
  by (simp add: sug_compare_order)

lemma qsort_sorts_length:
  "qsort_sorts X cmp \<Longrightarrow> length (qsort X cmp xs) = length xs"
  unfolding qsort_sorts_def by (metis size_mset)

lemma qsort_sorts_set:
  "qsort_sorts X cmp \<Longrightarrow> set (qsort X cmp xs) = set xs"
  unfolding qsort_sorts_def by (metis set_mset_mset)

lemma sorted_wrt_take: "sorted_wrt P xs \<Longrightarrow> sorted_wrt P (take n xs)"
  by (induction xs arbitrary: n) (auto simp: take_Cons' dest: in_set_takeD)

lemma cleanup_suggestions_sorted:
  assumes "qsort_sorts X sug_compare"
  shows "sorted_wrt in_suggest_order (fst (cleanup_suggestions X gap maxscore keep))"
proof (cases "gap = []")
  case True
  then show ?thesis by (simp add: cleanup_suggestions_def)
next
  case False
  have "sorted_wrt in_suggest_order (qsort X sug_compare gap)"
    using assms by (simp add: qsort_sorts_def flip: sorted_wrt_sug_compare)
  then show ?thesis
    using False by (simp add: cleanup_suggestions_def Let_def sorted_wrt_take)
qed

lemma cleanup_suggestions_truncates:
  assumes q: "qsort_sorts X sug_compare" and k: "1 \<le> keep" and l: "keep < int (length gap)"
  shows "cleanup_suggestions X gap maxscore keep
           = (take (nat keep) (qsort X sug_compare gap),
              st_score (last (take (nat keep) (qsort X sug_compare gap))))"
proof -
  let ?s = "qsort X sug_compare gap"
  have len: "length ?s = length gap" using q by (rule qsort_sorts_length)
  have ne: "take (nat keep) ?s \<noteq> []" using k l len by auto
  have "last (take (nat keep) ?s) = take (nat keep) ?s ! (length (take (nat keep) ?s) - 1)"
    using ne by (rule last_conv_nth)
  also have "length (take (nat keep) ?s) = nat keep" using l len by simp
  also have "take (nat keep) ?s ! (nat keep - 1) = ?s ! (nat keep - 1)" using k by simp
  finally have la: "last (take (nat keep) ?s) = ?s ! (nat keep - 1)" .
  have "gap \<noteq> []" using k l by auto
  then show ?thesis using k l la by (simp add: cleanup_suggestions_def Let_def)
qed

text \<open>
  Claim C3. When \<^verbatim>\<open>add_suggestion\<close> appends an entry (the minimized pair is not empty,
  no entry has the same word and length, the memory is there) and the list is then
  longer than \<open>SUG_MAX_COUNT = SUG_CLEAN_COUNT + 50\<close>, where \<open>SUG_CLEAN_COUNT\<close> is 150 for
  \<open>su_maxcount < 130\<close> and \<open>su_maxcount + 20\<close> otherwise: the list left is the first
  \<open>SUG_CLEAN_COUNT\<close> entries of a sorted arrangement of the old list with the new entry, in
  ascending order of (score, alternate score, case-insensitive word); and the bound
  (\<open>su_sfmaxscore\<close> when \<open>maxsf\<close> is set, \<open>su_maxscore\<close> otherwise) is the score of the last
  entry kept, the other bound staying as it was.
\<close>

theorem add_suggestion_cleans_up:
  assumes q: "qsort_sorts X sug_compare"
    and m: "sug_minimize (enc X) goodword (su_badptr su) (int (length goodword)) badlenarg
              = (goodlen, badlen)"
    and nz: "\<not> (badlen = 0 \<and> goodlen = 0)"
    and nf: "sug_find (get_ga su gap) goodword goodlen badlen = None"
    and mem: "mem_ok"
    and long: "int (length (get_ga su gap)) + 1 > SUG_MAX_COUNT su"
  shows "SUG_CLEAN_COUNT su = (if su_maxcount su < 130 then 150 else su_maxcount su + 20)
    \<and> SUG_MAX_COUNT su = SUG_CLEAN_COUNT su + 50
    \<and> (let su' = add_suggestion X mem_ok su gap goodword badlenarg score altscore had_bonus
                    slang maxsf;
            new = \<lparr> st_word = take (nat goodlen) goodword, st_wordlen = goodlen,
                     st_orglen = badlen, st_score = score, st_altscore = altscore,
                     st_salscore = False, st_had_bonus = had_bonus, st_slang = slang \<rparr>
        in (\<exists>sorted. mset sorted = mset (get_ga su gap @ [new])
                    \<and> sorted_wrt in_suggest_order sorted
                    \<and> get_ga su' gap = take (nat (SUG_CLEAN_COUNT su)) sorted)
           \<and> sorted_wrt in_suggest_order (get_ga su' gap)
           \<and> int (length (get_ga su' gap)) = SUG_CLEAN_COUNT su
           \<and> (if maxsf then su_sfmaxscore su' else su_maxscore su')
               = st_score (last (get_ga su' gap))
           \<and> (if maxsf then su_maxscore su' else su_sfmaxscore su')
               = (if maxsf then su_maxscore su else su_sfmaxscore su))"
proof -
  let ?new = "\<lparr> st_word = take (nat goodlen) goodword, st_wordlen = goodlen,
                  st_orglen = badlen, st_score = score, st_altscore = altscore,
                  st_salscore = False, st_had_bonus = had_bonus, st_slang = slang \<rparr>"
  let ?ga = "get_ga su gap @ [?new]"
  let ?keep = "SUG_CLEAN_COUNT su"
  let ?s = "qsort X sug_compare ?ga"
  have k1: "1 \<le> ?keep" by (simp add: SUG_CLEAN_COUNT_def)
  have kl: "?keep < int (length ?ga)" using long by (simp add: SUG_MAX_COUNT_def)
  have cl: "\<And>ms. cleanup_suggestions X ?ga ms ?keep
              = (take (nat ?keep) ?s, st_score (last (take (nat ?keep) ?s)))"
    using cleanup_suggestions_truncates [OF q k1 kl] by simp
  have get_set: "\<And>s g. get_ga (set_ga s gap g) gap = g"
    by (cases gap) (simp_all add: get_ga_def set_ga_def)
  have su': "add_suggestion X mem_ok su gap goodword badlenarg score altscore had_bonus slang maxsf
      = (if maxsf then (set_ga su gap (take (nat ?keep) ?s))
                         \<lparr> su_sfmaxscore := st_score (last (take (nat ?keep) ?s)) \<rparr>
         else (set_ga su gap (take (nat ?keep) ?s))
                \<lparr> su_maxscore := st_score (last (take (nat ?keep) ?s)) \<rparr>)"
  proof -
    have nz': "(badlen = 0 \<and> goodlen = 0) = False" using nz by simp
    have long': "(SUG_MAX_COUNT su < int (length (get_ga su gap @ [?new]))) = True"
      using long by simp
    show ?thesis
      unfolding add_suggestion_def m prod.case nz' if_False nf option.case Let_def long' if_True
      using mem by (simp add: cl)
  qed
  have get: "get_ga (add_suggestion X mem_ok su gap goodword badlenarg score altscore had_bonus
                       slang maxsf) gap = take (nat ?keep) ?s"
    unfolding su' by (cases gap) (simp_all add: get_ga_def set_ga_def)
  have ms: "mset ?s = mset ?ga" using q by (simp add: qsort_sorts_def)
  have so: "sorted_wrt in_suggest_order ?s"
    using q by (simp add: qsort_sorts_def flip: sorted_wrt_sug_compare)
  have len: "length ?s = length ?ga" using q by (rule qsort_sorts_length)
  have a: "\<exists>sorted. mset sorted = mset ?ga \<and> sorted_wrt in_suggest_order sorted
                 \<and> take (nat ?keep) ?s = take (nat ?keep) sorted"
    using ms so by blast
  have b: "sorted_wrt in_suggest_order (take (nat ?keep) ?s)"
    using so by (rule sorted_wrt_take)
  have c: "int (length (take (nat ?keep) ?s)) = ?keep" using kl k1 len by simp
  have d: "(if maxsf
            then su_sfmaxscore (add_suggestion X mem_ok su gap goodword badlenarg score altscore
                                  had_bonus slang maxsf)
            else su_maxscore (add_suggestion X mem_ok su gap goodword badlenarg score altscore
                                had_bonus slang maxsf))
           = st_score (last (take (nat ?keep) ?s))"
    unfolding su' by (cases gap) (simp_all add: set_ga_def)
  have e: "(if maxsf
            then su_maxscore (add_suggestion X mem_ok su gap goodword badlenarg score altscore
                                had_bonus slang maxsf)
            else su_sfmaxscore (add_suggestion X mem_ok su gap goodword badlenarg score altscore
                                  had_bonus slang maxsf))
           = (if maxsf then su_maxscore su else su_sfmaxscore su)"
    unfolding su' by (cases gap) (simp_all add: set_ga_def)
  show ?thesis
    unfolding Let_def get
    using a b c d e by (simp add: SUG_CLEAN_COUNT_def SUG_MAX_COUNT_def)
qed

theorem add_suggestion_cleans_up_witness:
  "qsort_sorts sample_extern sug_compare
   \<and> sug_minimize (enc sample_extern) ''them'' (su_badptr sample_full_info)
        (int (length ''them'')) 3 = (3, 2)
   \<and> sug_find (get_ga sample_full_info SU_GA) ''them'' 3 2 = None
   \<and> int (length (get_ga sample_full_info SU_GA)) + 1 > SUG_MAX_COUNT sample_full_info
   \<and> SUG_CLEAN_COUNT sample_full_info = 150
   \<and> length (su_ga (add_suggestion sample_extern True sample_full_info SU_GA ''them'' 3 10 0
                      False None False)) = 150
   \<and> su_maxscore sample_full_info = 350
   \<and> su_maxscore (add_suggestion sample_extern True sample_full_info SU_GA ''them'' 3 10 0
                      False None False) = 10
   \<and> su_sfmaxscore (add_suggestion sample_extern True sample_full_info SU_GA ''them'' 3 10 0
                      False None False) = 0"
proof -
  let ?su = sample_full_info
  let ?su' = "add_suggestion sample_extern True ?su SU_GA ''them'' 3 10 0 False None False"
  let ?new = "\<lparr> st_word = take (nat 3) ''them'', st_wordlen = 3, st_orglen = 2, st_score = 10,
                  st_altscore = 0, st_salscore = False, st_had_bonus = False,
                  st_slang = None \<rparr>"
  have ga: "get_ga ?su SU_GA = replicate 200 (sample_entry ''x'' 3 10)"
    by (simp add: get_ga_def sample_full_info_def)
  have m: "sug_minimize (enc sample_extern) ''them'' (su_badptr ?su) (int (length ''them'')) 3
             = (3, 2)"
    using sug_minimize_them_thm
    by (simp add: sample_extern_def sample_full_info_def sample_info_def)
  have nz: "\<not> ((2::int) = 0 \<and> (3::int) = 0)" by simp
  have nf: "sug_find (get_ga ?su SU_GA) ''them'' 3 2 = None"
    unfolding sug_find_None ga by (simp add: sug_same_def sample_entry_def)
  have long: "int (length (get_ga ?su SU_GA)) + 1 > SUG_MAX_COUNT ?su"
    unfolding ga
    by (simp add: SUG_MAX_COUNT_def SUG_CLEAN_COUNT_def sample_full_info_def sample_info_def)
  have cc: "SUG_CLEAN_COUNT ?su = 150"
    by (simp add: SUG_CLEAN_COUNT_def sample_full_info_def sample_info_def)
  note T = add_suggestion_cleans_up [OF qsort_sorts_sample m nz nf TrueI long,
             where score = 10 and altscore = 0 and had_bonus = False and slang = None
               and maxsf = False]
  from T obtain sorted where
    s: "mset sorted = mset (get_ga ?su SU_GA @ [?new])"
       "get_ga ?su' SU_GA = take (nat (SUG_CLEAN_COUNT ?su)) sorted"
    and len: "int (length (get_ga ?su' SU_GA)) = SUG_CLEAN_COUNT ?su"
    and mx: "su_maxscore ?su' = st_score (last (get_ga ?su' SU_GA))"
    and sf: "su_sfmaxscore ?su' = su_sfmaxscore ?su"
    unfolding Let_def by auto
  have "set sorted = set (get_ga ?su SU_GA @ [?new])"
    using s(1) by (rule mset_eq_setD)
  then have sc: "\<forall>e \<in> set sorted. st_score e = 10"
    unfolding ga by (auto simp: sample_entry_def)
  have ne: "get_ga ?su' SU_GA \<noteq> []" using len cc by auto
  have "last (get_ga ?su' SU_GA) \<in> set (get_ga ?su' SU_GA)" using ne by (rule last_in_set)
  then have "last (get_ga ?su' SU_GA) \<in> set sorted"
    unfolding s(2) by (rule in_set_takeD)
  then have mx10: "su_maxscore ?su' = 10" using mx sc by simp
  have l150: "length (su_ga ?su') = 150" using len cc by (simp add: get_ga_def)
  have sf0: "su_sfmaxscore ?su' = 0"
    using sf by (simp add: sample_full_info_def sample_info_def)
  have m0: "su_maxscore ?su = 350"
    by (simp add: sample_full_info_def sample_info_def SCORE_MAXINIT_def)
  show ?thesis using qsort_sorts_sample m nf long cc l150 m0 mx10 sf0 by simp
qed

subsection \<open>add_suggestion: minimizing and merging\<close>

lemma sug_find_first:
  "i < length ga \<Longrightarrow> sug_same (ga ! i) g gl bl \<Longrightarrow> (\<forall>j<i. \<not> sug_same (ga ! j) g gl bl)
     \<Longrightarrow> sug_find ga g gl bl = Some i"
proof (induction ga arbitrary: i)
  case Nil
  then show ?case by simp
next
  case (Cons stp ga)
  show ?case
  proof (cases i)
    case 0
    then show ?thesis using Cons.prems by simp
  next
    case (Suc k)
    have n: "\<not> sug_same stp g gl bl" using Cons.prems(3) Suc by auto
    have "\<forall>j<k. \<not> sug_same (ga ! j) g gl bl"
    proof (intro allI impI)
      fix j assume "j < k"
      then have "Suc j < i" using Suc by simp
      then show "\<not> sug_same (ga ! j) g gl bl" using Cons.prems(3) by fastforce
    qed
    then have "sug_find ga g gl bl = Some k"
      using Cons.IH [of k] Cons.prems(1,2) Suc by simp
    then show ?thesis using n Suc by simp
  qed
qed

text \<open>\<^verbatim>\<open>stp_sal_score\<close> reads the word and the two lengths of the entry only.\<close>

lemma stp_sal_score_fields:
  "st_word a = st_word b \<Longrightarrow> st_wordlen a = st_wordlen b \<Longrightarrow> st_orglen a = st_orglen b
     \<Longrightarrow> stp_sal_score X a su sl p = stp_sal_score X b su sl p"
  by (simp add: stp_sal_score_def Let_def)

text \<open>
  The score \<^verbatim>\<open>rescore_one\<close> leaves in an entry that had no bonus yet: with a language that
  has sound folding, \<open>(3 * score + alt) / 4\<close>, where \<open>alt\<close> is the soundalike score of the
  entry, \<open>SCORE_BIG\<close> standing for \<open>SCORE_MAXMAX\<close>; the score as it was without one.
\<close>

lemma rescore_one_score:
  assumes "\<not> st_had_bonus stp"
  shows "st_score (rescore_one X su stp)
     = (case st_slang stp of None \<Rightarrow> st_score stp
        | Some sl \<Rightarrow>
            if sl_sal_len sl > 0 then
              (let alt = stp_sal_score X stp su sl
                           (if Some sl = su_sallang su then su_sal_badword su
                            else spell_soundfold X sl (su_fbadword su) True)
               in c_div (3 * st_score stp + (if alt = SCORE_MAXMAX then SCORE_BIG else alt)) 4)
            else st_score stp)"
  using assms by (simp add: rescore_one_def Let_def RESCORE_def split: option.splits)

lemma sug_found_score_bonus:
  assumes o: "st_orglen old = badlen"
  shows "st_score (sug_found X su old badlen score altscore had_bonus slang)
     = (let lang = (if st_slang old = None then slang else st_slang old);
            bonus = (\<lambda>s. case lang of None \<Rightarrow> s
                     | Some sl \<Rightarrow>
                         if sl_sal_len sl > 0 then
                           (let alt = stp_sal_score X old su sl
                                        (if Some sl = su_sallang su then su_sal_badword su
                                         else spell_soundfold X sl (su_fbadword su) True)
                            in c_div (3 * s + (if alt = SCORE_MAXMAX then SCORE_BIG else alt)) 4)
                         else s);
            old_score = (if had_bonus \<and> \<not> st_had_bonus old then bonus (st_score old)
                         else st_score old);
            new_score = (if \<not> had_bonus \<and> st_had_bonus old then bonus score else score)
        in min old_score new_score)"
proof -
  let ?old1 = "if st_slang old = None then old\<lparr> st_slang := slang \<rparr> else old"
  let ?lang = "if st_slang old = None then slang else st_slang old"
  let ?new = "\<lparr> st_word = st_word ?old1, st_wordlen = st_wordlen ?old1,
                  st_orglen = badlen, st_score = score, st_altscore = altscore,
                  st_salscore = False, st_had_bonus = had_bonus,
                  st_slang = st_slang ?old1 \<rparr>"
  let ?bonus = "\<lambda>s. case ?lang of None \<Rightarrow> s
                     | Some sl \<Rightarrow>
                         if sl_sal_len sl > 0 then
                           (let alt = stp_sal_score X old su sl
                                        (if Some sl = su_sallang su then su_sal_badword su
                                         else spell_soundfold X sl (su_fbadword su) True)
                            in c_div (3 * s + (if alt = SCORE_MAXMAX then SCORE_BIG else alt)) 4)
                         else s"
  have f1: "\<And>sl p. stp_sal_score X ?old1 su sl p = stp_sal_score X old su sl p"
    by (rule stp_sal_score_fields) simp_all
  have f2: "\<And>sl p. stp_sal_score X ?new su sl p = stp_sal_score X old su sl p"
    using o by (intro stp_sal_score_fields) simp_all
  have l1: "st_slang ?old1 = ?lang" by simp
  have s1: "st_score ?old1 = st_score old" by simp
  have b1: "st_had_bonus ?old1 = st_had_bonus old" by simp
  have r1: "\<not> st_had_bonus old \<Longrightarrow> st_score (rescore_one X su ?old1) = ?bonus (st_score old)"
  proof -
    assume "\<not> st_had_bonus old"
    then have "\<not> st_had_bonus ?old1" by simp
    then show ?thesis
      unfolding rescore_one_score [OF \<open>\<not> st_had_bonus ?old1\<close>] l1 f1 s1 by simp
  qed
  have r2: "\<not> had_bonus \<Longrightarrow> st_score (rescore_one X su ?new) = ?bonus score"
  proof -
    assume "\<not> had_bonus"
    then have n: "\<not> st_had_bonus ?new" by simp
    have l2: "st_slang ?new = ?lang" by simp
    have s2: "st_score ?new = score" by simp
    show ?thesis unfolding rescore_one_score [OF n] l2 f2 s2 by simp
  qed
  have sf: "st_score (sug_found X su old badlen score altscore had_bonus slang)
     = min (st_score (if st_had_bonus ?old1 \<noteq> had_bonus \<and> had_bonus
                      then rescore_one X su ?old1 else ?old1))
           (st_score (if st_had_bonus ?old1 \<noteq> had_bonus \<and> \<not> had_bonus
                      then rescore_one X su ?new else ?new))"
    by (simp add: sug_found_def Let_def min_def)
  have a: "st_score (if st_had_bonus ?old1 \<noteq> had_bonus \<and> had_bonus
                      then rescore_one X su ?old1 else ?old1)
             = (if had_bonus \<and> \<not> st_had_bonus old then ?bonus (st_score old)
                else st_score old)"
  proof (cases "had_bonus \<and> \<not> st_had_bonus old")
    case True
    then have c: "st_had_bonus ?old1 \<noteq> had_bonus \<and> had_bonus" by simp
    show ?thesis unfolding if_P [OF c] if_P [OF True] using r1 True by blast
  next
    case False
    then have c: "\<not> (st_had_bonus ?old1 \<noteq> had_bonus \<and> had_bonus)" by auto
    show ?thesis unfolding if_not_P [OF c] if_not_P [OF False] by simp
  qed
  have b: "st_score (if st_had_bonus ?old1 \<noteq> had_bonus \<and> \<not> had_bonus
                      then rescore_one X su ?new else ?new)
             = (if \<not> had_bonus \<and> st_had_bonus old then ?bonus score else score)"
  proof (cases "\<not> had_bonus \<and> st_had_bonus old")
    case True
    then have c: "st_had_bonus ?old1 \<noteq> had_bonus \<and> \<not> had_bonus" by simp
    show ?thesis unfolding if_P [OF c] if_P [OF True] using r2 True by blast
  next
    case False
    then have c: "\<not> (st_had_bonus ?old1 \<noteq> had_bonus \<and> \<not> had_bonus)" by auto
    show ?thesis unfolding if_not_P [OF c] if_not_P [OF False] by simp
  qed
  show ?thesis unfolding sf a b Let_def ..
qed

text \<open>
  The turns of the minimizing loop with a multi-byte encoding, in the words of the two
  functions of the encoding: \<^verbatim>\<open>mb_head_off\<close> finds the start of the character before an
  offset and \<^verbatim>\<open>mb_ptr2char\<close> reads the character there.
\<close>

lemma sug_minimize_mbyte:
  assumes mb: "has_mbyte E"
    and m: "sug_minimize E goodword badptr pgood pbad = (goodlen, badlen)"
  shows "\<exists>n gs bs. gs 0 = pgood \<and> bs 0 = pbad \<and> gs n = goodlen \<and> bs n = badlen
      \<and> (\<forall>k<n. 0 < gs k \<and> 0 < bs k
            \<and> gs (Suc k) = gs k - (int (mb_head_off E goodword (nat (gs k - 1))) + 1)
            \<and> bs (Suc k) = bs k - (int (mb_head_off E badptr (nat (bs k - 1))) + 1)
            \<and> mb_ptr2char E (drop (nat (gs (Suc k))) goodword)
                = mb_ptr2char E (drop (nat (bs (Suc k))) badptr))
      \<and> (goodlen \<le> 0 \<or> badlen \<le> 0
          \<or> mb_ptr2char E (drop (nat (goodlen
                 - (int (mb_head_off E goodword (nat (goodlen - 1))) + 1))) goodword)
              \<noteq> mb_ptr2char E (drop (nat (badlen
                 - (int (mb_head_off E badptr (nat (badlen - 1))) + 1))) badptr))"
proof -
  let ?bb = "back_both E goodword badptr"
  obtain n where n: "sug_minimize E goodword badptr pgood pbad = (?bb ^^ n) (pgood, pbad)"
    "\<forall>k<n. same_last E goodword badptr ((?bb ^^ k) (pgood, pbad))"
    "\<not> same_last E goodword badptr ((?bb ^^ n) (pgood, pbad))"
    using sug_minimize_turns [of E goodword badptr pgood pbad] by blast
  define gs where "gs = (\<lambda>k. fst ((?bb ^^ k) (pgood, pbad)))"
  define bs where "bs = (\<lambda>k. snd ((?bb ^^ k) (pgood, pbad)))"
  have pk: "\<And>k. (?bb ^^ k) (pgood, pbad) = (gs k, bs k)" by (simp add: gs_def bs_def)
  have st: "\<And>k. gs (Suc k) = gs k - (int (mb_head_off E goodword (nat (gs k - 1))) + 1)
              \<and> bs (Suc k) = bs k - (int (mb_head_off E badptr (nat (bs k - 1))) + 1)"
    using mb by (simp add: gs_def bs_def back_both_def MB_PTR_BACK_def)
  have sl: "\<And>k. same_last E goodword badptr (gs k, bs k)
              \<longleftrightarrow> 0 < gs k \<and> 0 < bs k
                  \<and> mb_ptr2char E (drop (nat (gs k
                       - (int (mb_head_off E goodword (nat (gs k - 1))) + 1))) goodword)
                    = mb_ptr2char E (drop (nat (bs k
                       - (int (mb_head_off E badptr (nat (bs k - 1))) + 1))) badptr)"
    using mb by (simp add: same_last_def MB_PTR_BACK_def ptr_char_def)
  have e: "gs n = goodlen" "bs n = badlen" using n(1) m pk [of n] by simp_all
  have z: "gs 0 = pgood" "bs 0 = pbad" by (simp_all add: gs_def bs_def)
  have steps: "\<forall>k<n. 0 < gs k \<and> 0 < bs k
            \<and> gs (Suc k) = gs k - (int (mb_head_off E goodword (nat (gs k - 1))) + 1)
            \<and> bs (Suc k) = bs k - (int (mb_head_off E badptr (nat (bs k - 1))) + 1)
            \<and> mb_ptr2char E (drop (nat (gs (Suc k))) goodword)
                = mb_ptr2char E (drop (nat (bs (Suc k))) badptr)"
  proof (intro allI impI)
    fix k assume "k < n"
    then have "same_last E goodword badptr (gs k, bs k)" using n(2) pk by simp
    then have "0 < gs k \<and> 0 < bs k
                  \<and> mb_ptr2char E (drop (nat (gs k
                       - (int (mb_head_off E goodword (nat (gs k - 1))) + 1))) goodword)
                    = mb_ptr2char E (drop (nat (bs k
                       - (int (mb_head_off E badptr (nat (bs k - 1))) + 1))) badptr)"
      unfolding sl .
    then show "0 < gs k \<and> 0 < bs k
            \<and> gs (Suc k) = gs k - (int (mb_head_off E goodword (nat (gs k - 1))) + 1)
            \<and> bs (Suc k) = bs k - (int (mb_head_off E badptr (nat (bs k - 1))) + 1)
            \<and> mb_ptr2char E (drop (nat (gs (Suc k))) goodword)
                = mb_ptr2char E (drop (nat (bs (Suc k))) badptr)"
      using st [of k] by simp
  qed
  have ns: "\<not> same_last E goodword badptr (gs n, bs n)" using n(3) pk by simp
  have stop: "goodlen \<le> 0 \<or> badlen \<le> 0
          \<or> mb_ptr2char E (drop (nat (goodlen
                 - (int (mb_head_off E goodword (nat (goodlen - 1))) + 1))) goodword)
              \<noteq> mb_ptr2char E (drop (nat (badlen
                 - (int (mb_head_off E badptr (nat (badlen - 1))) + 1))) badptr)"
    using ns sl [of n] unfolding e by auto
  show ?thesis using z e steps stop by blast
qed

text \<open>
  Claim C5. For every call of \<^verbatim>\<open>add_suggestion\<close>, \<open>(goodlen, badlen)\<close> being the lengths the
  minimizing loop ends with:
  \<^item> with a single-byte encoding and \<open>badlenarg\<close> within the text, the loop has taken the
    same number of bytes from the end of the word and from the end of the replaced slice,
    the bytes taken are the same, and it stopped because a length reached zero or the
    two last bytes left differ;
  \<^item> with a multi-byte encoding the loop has taken some number \<open>n\<close> of turns; at each turn
    both offsets were positive, both went back to the start of the character before them
    (\<^verbatim>\<open>mb_head_off\<close>), and the two characters read there (\<^verbatim>\<open>mb_ptr2char\<close>) were the same; it
    stopped because a length reached zero or the two characters before the offsets
    differ;
  \<^item> if both lengths are zero the call returns the info unchanged;
  \<^item> otherwise, if the list holds an entry whose \<^verbatim>\<open>st_wordlen\<close> is \<open>goodlen\<close>, whose
    \<^verbatim>\<open>st_orglen\<close> is \<open>badlen\<close> and whose word agrees with the candidate in the first
    \<open>goodlen\<close> bytes (\<open>i\<close> being the first such), the list keeps its length, every other
    entry stays, entry \<open>i\<close> keeps its word and lengths, and its score becomes the lower of
    its own score and the score of the call. When exactly one of the two had the bonus,
    the score of the other is first replaced by \<open>(3 * score + alt) / 4\<close>, where \<open>alt\<close> is
    the soundalike score \<^verbatim>\<open>stp_sal_score\<close> gives for the entry (\<open>SCORE_BIG\<close> standing for
    \<open>SCORE_MAXMAX\<close>) in the language of the entry, or of the call when the entry has none;
    without such a language, or when it has no sound folding, the score stays. The other
    list and the two bounds stay.
\<close>

theorem add_suggestion_minimizes_and_merges:
  assumes m: "sug_minimize (enc X) goodword (su_badptr su) (int (length goodword)) badlenarg
                = (goodlen, badlen)"
  shows "(\<not> has_mbyte (enc X) \<and> 0 \<le> badlenarg \<and> badlenarg \<le> int (length (su_badptr su))
          \<longrightarrow> 0 \<le> goodlen \<and> 0 \<le> badlen
              \<and> int (length goodword) - goodlen = badlenarg - badlen
              \<and> drop (nat goodlen) goodword
                  = drop (nat badlen) (take (nat badlenarg) (su_badptr su))
              \<and> (goodlen = 0 \<or> badlen = 0
                  \<or> goodword ! (nat goodlen - 1) \<noteq> su_badptr su ! (nat badlen - 1)))
    \<and> (has_mbyte (enc X)
          \<longrightarrow> (\<exists>n gs bs. gs 0 = int (length goodword) \<and> bs 0 = badlenarg
                  \<and> gs n = goodlen \<and> bs n = badlen
                  \<and> (\<forall>k<n. 0 < gs k \<and> 0 < bs k
                        \<and> gs (Suc k)
                            = gs k - (int (mb_head_off (enc X) goodword (nat (gs k - 1))) + 1)
                        \<and> bs (Suc k)
                            = bs k - (int (mb_head_off (enc X) (su_badptr su) (nat (bs k - 1)))
                                      + 1)
                        \<and> mb_ptr2char (enc X) (drop (nat (gs (Suc k))) goodword)
                            = mb_ptr2char (enc X) (drop (nat (bs (Suc k))) (su_badptr su)))
                  \<and> (goodlen \<le> 0 \<or> badlen \<le> 0
                      \<or> mb_ptr2char (enc X) (drop (nat (goodlen
                             - (int (mb_head_off (enc X) goodword (nat (goodlen - 1))) + 1)))
                           goodword)
                          \<noteq> mb_ptr2char (enc X) (drop (nat (badlen
                             - (int (mb_head_off (enc X) (su_badptr su) (nat (badlen - 1))) + 1)))
                           (su_badptr su)))))
    \<and> (goodlen = 0 \<and> badlen = 0
          \<longrightarrow> add_suggestion X mem_ok su gap goodword badlenarg score altscore had_bonus slang
                maxsf = su)
    \<and> (\<not> (goodlen = 0 \<and> badlen = 0)
        \<and> i < length (get_ga su gap)
        \<and> st_wordlen (get_ga su gap ! i) = goodlen \<and> st_orglen (get_ga su gap ! i) = badlen
        \<and> take (nat goodlen) (st_word (get_ga su gap ! i)) = take (nat goodlen) goodword
        \<and> (\<forall>j<i. \<not> (st_wordlen (get_ga su gap ! j) = goodlen
                      \<and> st_orglen (get_ga su gap ! j) = badlen
                      \<and> take (nat goodlen) (st_word (get_ga su gap ! j))
                          = take (nat goodlen) goodword))
          \<longrightarrow> (let su' = add_suggestion X mem_ok su gap goodword badlenarg score altscore
                            had_bonus slang maxsf;
                    old = get_ga su gap ! i;
                    lang = (if st_slang old = None then slang else st_slang old);
                    bonus = (\<lambda>s. case lang of None \<Rightarrow> s
                       | Some sl \<Rightarrow>
                           if sl_sal_len sl > 0 then
                             (let alt = stp_sal_score X old su sl
                                          (if Some sl = su_sallang su then su_sal_badword su
                                           else spell_soundfold X sl (su_fbadword su) True)
                              in c_div (3 * s + (if alt = SCORE_MAXMAX then SCORE_BIG else alt))
                                   4)
                           else s);
                    old_score = (if had_bonus \<and> \<not> st_had_bonus old then bonus (st_score old)
                                 else st_score old);
                    new_score = (if \<not> had_bonus \<and> st_had_bonus old then bonus score
                                 else score)
                in length (get_ga su' gap) = length (get_ga su gap)
                   \<and> (\<forall>j. j \<noteq> i \<longrightarrow> get_ga su' gap ! j = get_ga su gap ! j)
                   \<and> st_word (get_ga su' gap ! i) = st_word old
                   \<and> st_wordlen (get_ga su' gap ! i) = st_wordlen old
                   \<and> st_orglen (get_ga su' gap ! i) = st_orglen old
                   \<and> st_score (get_ga su' gap ! i) = min old_score new_score
                   \<and> get_ga su' (if gap = SU_GA then SU_SGA else SU_GA)
                       = get_ga su (if gap = SU_GA then SU_SGA else SU_GA)
                   \<and> su_maxscore su' = su_maxscore su
                   \<and> su_sfmaxscore su' = su_sfmaxscore su))"
proof (intro conjI, goal_cases)
  case 1
  show ?case
  proof (rule impI)
    assume a: "\<not> has_mbyte (enc X) \<and> 0 \<le> badlenarg \<and> badlenarg \<le> int (length (su_badptr su))"
    have "0 \<le> goodlen \<and> 0 \<le> badlen \<and> int (length goodword) - goodlen = badlenarg - badlen
      \<and> goodlen \<le> int (length goodword)
      \<and> drop (nat goodlen) (take (nat (int (length goodword))) goodword)
          = drop (nat badlen) (take (nat badlenarg) (su_badptr su))
      \<and> (goodlen = 0 \<or> badlen = 0
          \<or> goodword ! (nat goodlen - 1) \<noteq> su_badptr su ! (nat badlen - 1))"
      using sug_minimize_single_byte [OF m] a by simp
    then show "0 \<le> goodlen \<and> 0 \<le> badlen
      \<and> int (length goodword) - goodlen = badlenarg - badlen
      \<and> drop (nat goodlen) goodword = drop (nat badlen) (take (nat badlenarg) (su_badptr su))
      \<and> (goodlen = 0 \<or> badlen = 0
          \<or> goodword ! (nat goodlen - 1) \<noteq> su_badptr su ! (nat badlen - 1))"
      by simp
  qed
next
  case 2
  show ?case
  proof (rule impI)
    assume mb: "has_mbyte (enc X)"
    show "\<exists>n gs bs. gs 0 = int (length goodword) \<and> bs 0 = badlenarg
                  \<and> gs n = goodlen \<and> bs n = badlen
                  \<and> (\<forall>k<n. 0 < gs k \<and> 0 < bs k
                        \<and> gs (Suc k)
                            = gs k - (int (mb_head_off (enc X) goodword (nat (gs k - 1))) + 1)
                        \<and> bs (Suc k)
                            = bs k - (int (mb_head_off (enc X) (su_badptr su) (nat (bs k - 1)))
                                      + 1)
                        \<and> mb_ptr2char (enc X) (drop (nat (gs (Suc k))) goodword)
                            = mb_ptr2char (enc X) (drop (nat (bs (Suc k))) (su_badptr su)))
                  \<and> (goodlen \<le> 0 \<or> badlen \<le> 0
                      \<or> mb_ptr2char (enc X) (drop (nat (goodlen
                             - (int (mb_head_off (enc X) goodword (nat (goodlen - 1))) + 1)))
                           goodword)
                          \<noteq> mb_ptr2char (enc X) (drop (nat (badlen
                             - (int (mb_head_off (enc X) (su_badptr su) (nat (badlen - 1))) + 1)))
                           (su_badptr su)))"
      using mb m by (rule sug_minimize_mbyte)
  qed
next
  case 3
  show ?case
  proof (rule impI)
    assume "goodlen = 0 \<and> badlen = 0"
    then show "add_suggestion X mem_ok su gap goodword badlenarg score altscore had_bonus slang
               maxsf = su"
      by (simp add: add_suggestion_def m)
  qed
next
  case 4
  show ?case
  proof (rule impI)
    let ?ga = "get_ga su gap"
    let ?e = "sug_found X su (?ga ! i) badlen score altscore had_bonus slang"
    assume a: "\<not> (goodlen = 0 \<and> badlen = 0)
        \<and> i < length ?ga
        \<and> st_wordlen (?ga ! i) = goodlen \<and> st_orglen (?ga ! i) = badlen
        \<and> take (nat goodlen) (st_word (?ga ! i)) = take (nat goodlen) goodword
        \<and> (\<forall>j<i. \<not> (st_wordlen (?ga ! j) = goodlen
                      \<and> st_orglen (?ga ! j) = badlen
                      \<and> take (nat goodlen) (st_word (?ga ! j)) = take (nat goodlen) goodword))"
    have nz: "(badlen = 0 \<and> goodlen = 0) = False" using a by auto
    have il: "i < length ?ga" using a by simp
    have o: "st_orglen (?ga ! i) = badlen" using a by simp
    have si: "sug_same (?ga ! i) goodword goodlen badlen" using a by (simp add: sug_same_def)
    have sj: "\<forall>j<i. \<not> sug_same (?ga ! j) goodword goodlen badlen"
      using a by (simp add: sug_same_def)
    have f: "sug_find ?ga goodword goodlen badlen = Some i"
      using il si sj by (rule sug_find_first)
    have su': "add_suggestion X mem_ok su gap goodword badlenarg score altscore had_bonus slang
               maxsf = set_ga su gap (?ga [i := ?e])"
      unfolding add_suggestion_def m prod.case nz if_False f option.case by simp
    have g: "get_ga (set_ga su gap (?ga [i := ?e])) gap = ?ga [i := ?e]"
      by (rule get_ga_set_ga)
    have other: "get_ga (set_ga su gap (?ga [i := ?e])) (if gap = SU_GA then SU_SGA else SU_GA)
                 = get_ga su (if gap = SU_GA then SU_SGA else SU_GA)"
      by (cases gap) (simp_all add: get_ga_def set_ga_def)
    have bounds: "su_maxscore (set_ga su gap (?ga [i := ?e])) = su_maxscore su
                \<and> su_sfmaxscore (set_ga su gap (?ga [i := ?e])) = su_sfmaxscore su"
      by (cases gap) (simp_all add: set_ga_def)
    have ei: "(?ga [i := ?e]) ! i = ?e" using il by simp
    have ej: "\<forall>j. j \<noteq> i \<longrightarrow> (?ga [i := ?e]) ! j = ?ga ! j" by simp
    have len: "length (?ga [i := ?e]) = length ?ga" by simp
    note sc = sug_found_score_bonus [OF o, of X su score altscore had_bonus slang]
    note kp = sug_found_keeps [of X su "?ga ! i" badlen score altscore had_bonus slang]
    show "let su' = add_suggestion X mem_ok su gap goodword badlenarg score altscore
                            had_bonus slang maxsf;
                    old = get_ga su gap ! i;
                    lang = (if st_slang old = None then slang else st_slang old);
                    bonus = (\<lambda>s. case lang of None \<Rightarrow> s
                       | Some sl \<Rightarrow>
                           if sl_sal_len sl > 0 then
                             (let alt = stp_sal_score X old su sl
                                          (if Some sl = su_sallang su then su_sal_badword su
                                           else spell_soundfold X sl (su_fbadword su) True)
                              in c_div (3 * s + (if alt = SCORE_MAXMAX then SCORE_BIG else alt))
                                   4)
                           else s);
                    old_score = (if had_bonus \<and> \<not> st_had_bonus old then bonus (st_score old)
                                 else st_score old);
                    new_score = (if \<not> had_bonus \<and> st_had_bonus old then bonus score
                                 else score)
                in length (get_ga su' gap) = length (get_ga su gap)
                   \<and> (\<forall>j. j \<noteq> i \<longrightarrow> get_ga su' gap ! j = get_ga su gap ! j)
                   \<and> st_word (get_ga su' gap ! i) = st_word old
                   \<and> st_wordlen (get_ga su' gap ! i) = st_wordlen old
                   \<and> st_orglen (get_ga su' gap ! i) = st_orglen old
                   \<and> st_score (get_ga su' gap ! i) = min old_score new_score
                   \<and> get_ga su' (if gap = SU_GA then SU_SGA else SU_GA)
                       = get_ga su (if gap = SU_GA then SU_SGA else SU_GA)
                   \<and> su_maxscore su' = su_maxscore su
                   \<and> su_sfmaxscore su' = su_sfmaxscore su"
      unfolding Let_def su' g other ei len
      using ej bounds kp sc [unfolded Let_def] by (intro conjI) blast+
  qed
qed

theorem add_suggestion_minimizes_and_merges_witness:
  "sug_minimize (enc sample_extern) ''the'' (su_badptr ((sample_info ''hte'')
       \<lparr> su_ga := [sample_entry ''th'' 2 96] \<rparr>)) (int (length ''the'')) 3 = (2, 2)
   \<and> \<not> has_mbyte (enc sample_extern)
   \<and> drop 2 ''the'' = drop 2 (take 3 ''hte'')
   \<and> st_had_bonus (sample_entry ''th'' 2 96) = False
   \<and> stp_sal_score sample_extern (sample_entry ''th'' 2 96)
        ((sample_info ''hte'')\<lparr> su_ga := [sample_entry ''th'' 2 96] \<rparr>) sample_lang ''hte'' = 75
   \<and> c_div (3 * 96 + 75) 4 = 90
   \<and> map st_score (get_ga (add_suggestion sample_extern True
        ((sample_info ''hte'')\<lparr> su_ga := [sample_entry ''th'' 2 96] \<rparr>) SU_GA ''the'' 3 95 0
        True (Some sample_lang) False) SU_GA) = [90]
   \<and> sug_minimize (enc sample_extern) ''hte'' (su_badptr (sample_info ''hte''))
        (int (length ''hte'')) 3 = (0, 0)
   \<and> add_suggestion sample_extern True (sample_info ''hte'') SU_GA ''hte'' 3 65 0 False None
        False = sample_info ''hte''"
proof -
  let ?old = "sample_entry ''th'' 2 96"
  let ?su = "(sample_info ''hte'')\<lparr> su_ga := [?old] \<rparr>"
  let ?su' = "add_suggestion sample_extern True ?su SU_GA ''the'' 3 95 0 True (Some sample_lang)
                False"
  have sb: "\<not> has_mbyte (enc sample_extern)"
    by (simp add: sample_extern_def single_byte_def)
  have m1: "sug_minimize (enc sample_extern) ''the'' (su_badptr ?su) (int (length ''the'')) 3
              = (2, 2)"
    using sug_minimize_the_hte by (simp add: sample_extern_def sample_info_def)
  have m2: "sug_minimize (enc sample_extern) ''hte'' (su_badptr (sample_info ''hte''))
              (int (length ''hte'')) 3 = (0, 0)"
    using sug_minimize_hte_hte by (simp add: sample_extern_def sample_info_def)
  have g: "get_ga ?su SU_GA = [?old]" by (simp add: get_ga_def)
  have old: "st_slang ?old = None" "st_had_bonus ?old = False" "st_score ?old = 96"
    "st_wordlen ?old = 2" "st_orglen ?old = 2" "st_word ?old = ''th''"
    by (simp_all add: sample_entry_def)
  have su: "su_sallang (sample_info ''hte'') = None" "su_fbadword (sample_info ''hte'') = ''hte''"
    by (simp_all add: sample_info_def)
  have sf: "\<And>sl w t. spell_soundfold sample_extern sl w t = w" by (simp add: sample_extern_def)
  have sl: "sl_sal_len sample_lang = 1" by (simp add: sample_lang_def)
  have alt: "stp_sal_score sample_extern ?old ?su sample_lang ''hte'' = 75" by code_simp
  have cd: "c_div (3 * 96 + 75) 4 = 90" by (simp add: c_div_def)
  have mx: "(75::int) \<noteq> SCORE_MAXMAX" by (simp add: SCORE_MAXMAX_def)
  note T = add_suggestion_minimizes_and_merges [OF m1,
            where i = 0 and mem_ok = True and gap = SU_GA and score = 95
            and altscore = 0 and had_bonus = True and slang = "Some sample_lang"
            and maxsf = False]
  have a: "length (get_ga ?su' SU_GA) = 1 \<and> st_score (get_ga ?su' SU_GA ! 0) = 90"
    using T unfolding Let_def g
    by (simp add: old su sf sl alt c_div_def SCORE_MAXMAX_def)
  have b: "add_suggestion sample_extern True (sample_info ''hte'') SU_GA ''hte'' 3 65 0 False
             None False = sample_info ''hte''"
    using add_suggestion_minimizes_and_merges [OF m2,
            where i = 0 and mem_ok = True and gap = SU_GA and score = 65
            and altscore = 0 and had_bonus = False and slang = None and maxsf = False]
    by simp
  have c: "map st_score (get_ga ?su' SU_GA) = [90]"
    using a by (cases "get_ga ?su' SU_GA") auto
  show ?thesis using m1 m2 sb old(2) alt cd b c by simp
qed

subsection \<open>spell_suggest_list: the strings handed to the caller\<close>

lemma suggest_copy_tail:
  assumes "st_wordlen stp = int (length (st_word stp))"
  shows "suggest_copy sug stp = st_word stp @ drop (nat (st_orglen stp)) (su_badptr sug)"
  using assms by (simp add: suggest_copy_def str_put_def)

lemma copy_loop_length: "length (copy_loop alloc_ok sug i ga) \<le> length ga"
  by (induction ga arbitrary: i) auto

lemma copy_loop_nth:
  "k < length (copy_loop alloc_ok sug i ga)
     \<Longrightarrow> copy_loop alloc_ok sug i ga ! k = suggest_copy sug (ga ! k)"
proof (induction ga arbitrary: i k)
  case Nil
  then show ?case by simp
next
  case (Cons stp ga)
  show ?case
  proof (cases "alloc_ok i")
    case False
    then show ?thesis using Cons.prems by simp
  next
    case True
    show ?thesis
    proof (cases k)
      case 0
      then show ?thesis using True by simp
    next
      case (Suc j)
      then have "j < length (copy_loop alloc_ok sug (i + 1) ga)"
        using Cons.prems True by simp
      then show ?thesis using Cons.IH [of j "i + 1"] True Suc by simp
    qed
  qed
qed

lemma copy_loop_all:
  "(\<forall>k < length ga. alloc_ok (i + k))
     \<Longrightarrow> copy_loop alloc_ok sug i ga = map (suggest_copy sug) ga"
proof (induction ga arbitrary: i)
  case Nil
  then show ?case by simp
next
  case (Cons stp ga)
  have a: "alloc_ok i" using Cons.prems by auto
  have "\<forall>k < length ga. alloc_ok (i + 1 + k)"
  proof (intro allI impI)
    fix k assume "k < length ga"
    then have "Suc k < length (stp # ga)" by simp
    then have "alloc_ok (i + Suc k)" using Cons.prems by blast
    then show "alloc_ok (i + 1 + k)" by simp
  qed
  then show ?case using Cons.IH [of "i + 1"] a by simp
qed

text \<open>
  Claim C10. The list \<^verbatim>\<open>spell_suggest_list\<close> hands to the caller, when every entry of
  \<^verbatim>\<open>su_ga\<close> has the length of its word in \<^verbatim>\<open>st_wordlen\<close> and an \<^verbatim>\<open>st_orglen\<close> within the
  input: it is no longer than \<^verbatim>\<open>su_ga\<close>; its string \<open>k\<close> is the word of entry \<open>k\<close> followed
  by the bytes of the input from offset \<^verbatim>\<open>st_orglen\<close> to its end, which is the word followed
  by a tail that is not empty when \<^verbatim>\<open>st_orglen\<close> is less than the length of the input, and
  the word unchanged when \<^verbatim>\<open>st_orglen\<close> is the length of the input; and when no allocation
  fails there is a string for every entry.
\<close>

theorem spell_suggest_list_appends_tail:
  assumes inv: "\<forall>stp \<in> set (su_ga sug).
                  st_wordlen stp = int (length (st_word stp))
                  \<and> 0 \<le> st_orglen stp \<and> st_orglen stp \<le> int (length (su_badptr sug))"
  shows "length (spell_suggest_list_copy grow_ok alloc_ok sug) \<le> length (su_ga sug)
    \<and> (\<forall>k < length (spell_suggest_list_copy grow_ok alloc_ok sug).
          spell_suggest_list_copy grow_ok alloc_ok sug ! k
            = st_word (su_ga sug ! k) @ drop (nat (st_orglen (su_ga sug ! k))) (su_badptr sug)
          \<and> (st_orglen (su_ga sug ! k) < int (length (su_badptr sug))
               \<longrightarrow> drop (nat (st_orglen (su_ga sug ! k))) (su_badptr sug) \<noteq> [])
          \<and> (st_orglen (su_ga sug ! k) = int (length (su_badptr sug))
               \<longrightarrow> spell_suggest_list_copy grow_ok alloc_ok sug ! k
                     = st_word (su_ga sug ! k)))
    \<and> (grow_ok \<and> (\<forall>k < length (su_ga sug). alloc_ok k)
          \<longrightarrow> spell_suggest_list_copy grow_ok alloc_ok sug
                = map (\<lambda>stp. st_word stp @ drop (nat (st_orglen stp)) (su_badptr sug))
                    (su_ga sug))"
proof (intro conjI)
  show "length (spell_suggest_list_copy grow_ok alloc_ok sug) \<le> length (su_ga sug)"
    using copy_loop_length [of alloc_ok sug 0 "su_ga sug"]
    by (simp add: spell_suggest_list_copy_def)
next
  show "\<forall>k < length (spell_suggest_list_copy grow_ok alloc_ok sug).
          spell_suggest_list_copy grow_ok alloc_ok sug ! k
            = st_word (su_ga sug ! k) @ drop (nat (st_orglen (su_ga sug ! k))) (su_badptr sug)
          \<and> (st_orglen (su_ga sug ! k) < int (length (su_badptr sug))
               \<longrightarrow> drop (nat (st_orglen (su_ga sug ! k))) (su_badptr sug) \<noteq> [])
          \<and> (st_orglen (su_ga sug ! k) = int (length (su_badptr sug))
               \<longrightarrow> spell_suggest_list_copy grow_ok alloc_ok sug ! k
                     = st_word (su_ga sug ! k))"
  proof (intro allI impI)
    fix k
    assume k: "k < length (spell_suggest_list_copy grow_ok alloc_ok sug)"
    then have g: "grow_ok" by (auto simp: spell_suggest_list_copy_def split: if_splits)
    have kl: "k < length (copy_loop alloc_ok sug 0 (su_ga sug))"
      using k g by (simp add: spell_suggest_list_copy_def)
    then have kg: "k < length (su_ga sug)"
      using copy_loop_length [of alloc_ok sug 0 "su_ga sug"] by simp
    then have mem: "su_ga sug ! k \<in> set (su_ga sug)" by simp
    have wl: "st_wordlen (su_ga sug ! k) = int (length (st_word (su_ga sug ! k)))"
      and o0: "0 \<le> st_orglen (su_ga sug ! k)"
      using inv mem by blast+
    have e: "spell_suggest_list_copy grow_ok alloc_ok sug ! k
               = st_word (su_ga sug ! k)
                   @ drop (nat (st_orglen (su_ga sug ! k))) (su_badptr sug)"
      using copy_loop_nth [OF kl] suggest_copy_tail [OF wl] g
      by (simp add: spell_suggest_list_copy_def)
    show "spell_suggest_list_copy grow_ok alloc_ok sug ! k
            = st_word (su_ga sug ! k) @ drop (nat (st_orglen (su_ga sug ! k))) (su_badptr sug)
          \<and> (st_orglen (su_ga sug ! k) < int (length (su_badptr sug))
               \<longrightarrow> drop (nat (st_orglen (su_ga sug ! k))) (su_badptr sug) \<noteq> [])
          \<and> (st_orglen (su_ga sug ! k) = int (length (su_badptr sug))
               \<longrightarrow> spell_suggest_list_copy grow_ok alloc_ok sug ! k
                     = st_word (su_ga sug ! k))"
      using e o0 by auto
  qed
next
  show "grow_ok \<and> (\<forall>k < length (su_ga sug). alloc_ok k)
          \<longrightarrow> spell_suggest_list_copy grow_ok alloc_ok sug
                = map (\<lambda>stp. st_word stp @ drop (nat (st_orglen stp)) (su_badptr sug))
                    (su_ga sug)"
  proof (rule impI)
    assume a: "grow_ok \<and> (\<forall>k < length (su_ga sug). alloc_ok k)"
    then have "copy_loop alloc_ok sug 0 (su_ga sug) = map (suggest_copy sug) (su_ga sug)"
      using copy_loop_all [of "su_ga sug" alloc_ok 0 sug] by simp
    moreover have "map (suggest_copy sug) (su_ga sug)
        = map (\<lambda>stp. st_word stp @ drop (nat (st_orglen stp)) (su_badptr sug)) (su_ga sug)"
      using inv suggest_copy_tail by (intro map_cong) auto
    ultimately show "spell_suggest_list_copy grow_ok alloc_ok sug
        = map (\<lambda>stp. st_word stp @ drop (nat (st_orglen stp)) (su_badptr sug)) (su_ga sug)"
      using a by (simp add: spell_suggest_list_copy_def)
  qed
qed

theorem spell_suggest_list_appends_tail_witness:
  "list_all (\<lambda>stp.
       st_wordlen stp = int (length (st_word stp))
       \<and> 0 \<le> st_orglen stp
       \<and> st_orglen stp \<le> int (length (su_badptr ((sample_info ''hte cat'')
                  \<lparr> su_ga := [sample_entry ''the'' 3 65, sample_entry ''the cat'' 7 70] \<rparr>))))
     (su_ga ((sample_info ''hte cat'')
                  \<lparr> su_ga := [sample_entry ''the'' 3 65, sample_entry ''the cat'' 7 70] \<rparr>))
   \<and> spell_suggest_list_copy True (\<lambda>k. True) ((sample_info ''hte cat'')
        \<lparr> su_ga := [sample_entry ''the'' 3 65, sample_entry ''the cat'' 7 70] \<rparr>)
       = [''the cat'', ''the cat'']"
proof -
  let ?sug = "(sample_info ''hte cat'')
                \<lparr> su_ga := [sample_entry ''the'' 3 65, sample_entry ''the cat'' 7 70] \<rparr>"
  have inv: "\<forall>stp \<in> set (su_ga ?sug).
               st_wordlen stp = int (length (st_word stp))
               \<and> 0 \<le> st_orglen stp \<and> st_orglen stp \<le> int (length (su_badptr ?sug))"
    by (simp add: sample_info_def sample_entry_def)
  have "spell_suggest_list_copy True (\<lambda>k. True) ?sug = [''the cat'', ''the cat'']"
    using spell_suggest_list_appends_tail [OF inv, of True "\<lambda>k. True"]
    by (simp add: sample_info_def sample_entry_def)
  then show ?thesis using inv by (simp add: list_all_iff)
qed

subsection \<open>suggest_try_special: the repeated word\<close>

lemma repeated_word_test:
  assumes "fb = w @ sep @ w" and "sep \<noteq> []" and "\<forall>c \<in> set sep. VIM_ISWHITE c"
    and "\<forall>c \<in> set w. \<not> VIM_ISWHITE c"
  shows "skiptowhite fb = sep @ w" and "skipwhite (sep @ w) = w"
    and "length fb - length (sep @ w) = length w" and "take (length w) fb = w"
proof -
  obtain s ss where sep: "sep = s # ss" using assms(2) by (cases sep) auto
  have ws: "VIM_ISWHITE s" using assms(3) sep by simp
  have a: "skiptowhite fb = sep @ w"
    unfolding skiptowhite_def assms(1) using assms(4) ws sep
    by (simp add: dropWhile_append2)
  have "dropWhile VIM_ISWHITE w = w"
    using assms(4) by (cases w) auto
  then have b: "skipwhite (sep @ w) = w"
    unfolding skipwhite_def using assms(3) by (simp add: dropWhile_append2)
  show "skiptowhite fb = sep @ w" by (rule a)
  show "skipwhite (sep @ w) = w" by (rule b)
  show "length fb - length (sep @ w) = length w" using assms(1) by simp
  show "take (length w) fb = w" using assms(1) by simp
qed

lemma RESCORE_REP: "RESCORE SCORE_REP 0 = 48"
  by (simp add: RESCORE_def c_div_def SCORE_REP_def)

text \<open>
  Claim C6. For every encoding: when the case-folded bad word is a word \<open>w\<close> without white
  space, white space, and \<open>w\<close> again, \<^verbatim>\<open>suggest_try_special\<close> makes exactly one call of
  \<^verbatim>\<open>add_suggestion\<close>, for the list \<^verbatim>\<open>su_ga\<close>: with the word \<open>w\<close> in the case
  \<^verbatim>\<open>make_case_word\<close> gives it for \<^verbatim>\<open>su_badflags\<close>, with the length \<^verbatim>\<open>su_badlen\<close> of the whole
  bad word as the length replaced, with the score \<open>RESCORE(SCORE_REP, 0) = (3 * 65) / 4 = 48\<close>
  and the alternate score 0, and with the bonus flag set.
\<close>

theorem suggest_try_special_repeated_word:
  assumes fb: "su_fbadword su = w @ sep @ w"
    and sep: "sep \<noteq> []" "\<forall>c \<in> set sep. VIM_ISWHITE c"
    and w: "\<forall>c \<in> set w. \<not> VIM_ISWHITE c"
  shows "RESCORE SCORE_REP 0 = c_div (3 * 65) 4 \<and> c_div (3 * 65) 4 = 48
    \<and> suggest_try_special X mem_ok su
        = add_suggestion X mem_ok su SU_GA (make_case_word X w (su_badflags su)) (su_badlen su)
            48 0 True (su_sallang su) False"
proof -
  note t = repeated_word_test [OF fb sep w]
  have call: "suggest_try_special X mem_ok su
                = add_suggestion X mem_ok su SU_GA (make_case_word X w (su_badflags su))
                    (su_badlen su) 48 0 True (su_sallang su) False"
    unfolding suggest_try_special_def Let_def t RESCORE_REP by simp
  have r: "RESCORE SCORE_REP 0 = c_div (3 * 65) 4 \<and> c_div (3 * 65) 4 = 48"
    by (simp add: RESCORE_def c_div_def SCORE_REP_def)
  show ?thesis using r call by simp
qed

text \<open>
  For the bad word \<open>the the\<close>: the call is made with \<open>the\<close>, the length 7 and the score 48.
  \<^verbatim>\<open>add_suggestion\<close> takes the common end \<open>the\<close> from the word and from the text replaced
  before it stores the entry, and the string \<^verbatim>\<open>spell_suggest_list\<close> makes of the entry is
  \<open>the\<close>.
\<close>

theorem suggest_try_special_repeated_word_witness:
  "su_fbadword (sample_info ''the the'') = ''the'' @ '' '' @ ''the''
   \<and> list_all VIM_ISWHITE '' '' \<and> list_all (\<lambda>c. \<not> VIM_ISWHITE c) ''the''
   \<and> su_badlen (sample_info ''the the'') = 7
   \<and> make_case_word sample_extern ''the'' (su_badflags (sample_info ''the the'')) = ''the''
   \<and> suggest_try_special sample_extern True (sample_info ''the the'')
       = add_suggestion sample_extern True (sample_info ''the the'') SU_GA ''the'' 7 48 0 True
           None False
   \<and> map (\<lambda>stp. (st_word stp, st_orglen stp, st_score stp))
       (su_ga (suggest_try_special sample_extern True (sample_info ''the the'')))
       = [('''', 4, 48)]
   \<and> map (suggest_copy (sample_info ''the the''))
       (su_ga (suggest_try_special sample_extern True (sample_info ''the the''))) = [''the'']"
proof -
  let ?su = "sample_info ''the the''"
  have fb: "su_fbadword ?su = ''the'' @ '' '' @ ''the''" by (simp add: sample_info_def)
  have sep: "'' '' \<noteq> []" "\<forall>c \<in> set '' ''. VIM_ISWHITE c" by (simp_all add: VIM_ISWHITE_def)
  have w: "\<forall>c \<in> set ''the''. \<not> VIM_ISWHITE c" by (simp add: VIM_ISWHITE_def)
  have gw: "make_case_word sample_extern ''the'' (su_badflags ?su) = ''the''"
    by (simp add: sample_extern_def sample_info_def)
  have b7: "su_badlen ?su = 7" "su_sallang ?su = None" by (simp_all add: sample_info_def)
  have call: "suggest_try_special sample_extern True ?su
       = add_suggestion sample_extern True ?su SU_GA ''the'' 7 48 0 True None False"
    using suggest_try_special_repeated_word [OF fb sep w, of sample_extern True]
    unfolding gw b7 by blast
  have m0: "sug_minimize single_byte ''the'' ''the the'' 3 7 = (0, 4)"
    by (simp add: sug_minimize.simps [of _ _ _ 3 7] sug_minimize.simps [of _ _ _ 2 6]
          sug_minimize.simps [of _ _ _ 1 5] sug_minimize.simps [of _ _ _ 0 4]
          MB_PTR_BACK_def ptr_char_def byte_at_def single_byte_def)
  have ga: "su_ga (add_suggestion sample_extern True ?su SU_GA ''the'' 7 48 0 True None False)
       = [\<lparr> st_word = [], st_wordlen = 0, st_orglen = 4, st_score = 48, st_altscore = 0,
            st_salscore = False, st_had_bonus = True, st_slang = None \<rparr>]"
    by (simp add: sample_info_def sample_extern_def add_suggestion_def m0 get_ga_def set_ga_def
          SUG_MAX_COUNT_def SUG_CLEAN_COUNT_def)
  have cp: "map (suggest_copy ?su)
       (su_ga (add_suggestion sample_extern True ?su SU_GA ''the'' 7 48 0 True None False))
       = [''the'']"
    unfolding ga by (simp add: suggest_copy_def str_put_def sample_info_def)
  show ?thesis
    unfolding call using fb sep w gw b7 call ga cp by (simp add: list_all_iff)
qed

subsection \<open>score_combine\<close>

lemma add_if_new_dedup:
  "foldl add_if_new acc xs
     = acc @ dedup_by_word (filter (\<lambda>y. \<forall>s \<in> set acc. st_word s \<noteq> st_word y) xs)"
proof (induction xs arbitrary: acc)
  case Nil
  then show ?case by simp
next
  case (Cons x xs)
  show ?case
  proof (cases "\<exists>s \<in> set acc. st_word s = st_word x")
    case True
    then show ?thesis using Cons.IH [of acc] by (auto simp: add_if_new_def)
  next
    case False
    have f: "filter (\<lambda>y. \<forall>s \<in> set (acc @ [x]). st_word s \<noteq> st_word y) xs
               = filter (\<lambda>y. st_word y \<noteq> st_word x)
                   (filter (\<lambda>y. \<forall>s \<in> set acc. st_word s \<noteq> st_word y) xs)"
      by (auto simp: filter_filter intro: filter_cong)
    have "foldl add_if_new acc (x # xs) = foldl add_if_new (acc @ [x]) xs"
      using False by (simp add: add_if_new_def)
    also have "\<dots> = (acc @ [x])
         @ dedup_by_word (filter (\<lambda>y. \<forall>s \<in> set (acc @ [x]). st_word s \<noteq> st_word y) xs)"
      by (rule Cons.IH)
    finally show ?thesis using False unfolding f by simp
  qed
qed

lemma set_dedup_by_word: "set (dedup_by_word xs) \<subseteq> set xs"
proof (induction xs rule: dedup_by_word.induct)
  case 1
  then show ?case by simp
next
  case (2 x xs)
  then show ?case by auto
qed

lemma words_dedup_by_word: "st_word ` set (dedup_by_word xs) = st_word ` set xs"
proof (induction xs rule: dedup_by_word.induct)
  case 1
  then show ?case by simp
next
  case (2 x xs)
  have "st_word ` set (x # xs)
          = insert (st_word x) (st_word ` set (filter (\<lambda>y. st_word y \<noteq> st_word x) xs))"
    by auto
  then show ?case using 2 by simp
qed

lemma distinct_dedup_by_word: "distinct (map st_word (dedup_by_word xs))"
proof (induction xs rule: dedup_by_word.induct)
  case 1
  then show ?case by simp
next
  case (2 x xs)
  have "st_word x \<notin> st_word ` set (filter (\<lambda>y. st_word y \<noteq> st_word x) xs)" by auto
  then have "st_word x
               \<notin> st_word ` set (dedup_by_word (filter (\<lambda>y. st_word y \<noteq> st_word x) xs))"
    using set_dedup_by_word [of "filter (\<lambda>y. st_word y \<noteq> st_word x) xs"] by blast
  then show ?case using 2 by simp
qed

lemma cleanup_suggestions_subset:
  assumes "qsort_sorts X sug_compare"
  shows "set (fst (cleanup_suggestions X gap maxscore keep)) \<subseteq> set gap"
  using qsort_sorts_set [OF assms, of gap]
  by (auto simp: cleanup_suggestions_def Let_def dest: in_set_takeD)

lemma cleanup_suggestions_length:
  assumes "qsort_sorts X sug_compare" and "0 \<le> keep"
  shows "int (length (fst (cleanup_suggestions X gap maxscore keep))) \<le> keep"
  using qsort_sorts_length [OF assms(1), of gap] assms(2)
  by (auto simp: cleanup_suggestions_def Let_def)

text \<open>
  Claim C7, as the code has it. With a language that has sound folding (the first such
  of the window's languages), \<^verbatim>\<open>score_combine\<close>
  \<^item> sets the score of every entry of \<^verbatim>\<open>su_ga\<close> to \<open>(3 * old + alt) / 4\<close>, where \<open>alt\<close> is
    its soundalike score, with \<open>SCORE_BIG\<close> in the place of a soundalike score of
    \<open>SCORE_MAXMAX\<close>;
  \<^item> sets the score of every entry of \<^verbatim>\<open>su_sga\<close> to \<open>(7 * old + alt) / 8\<close>, where \<open>alt\<close> is
    \<^verbatim>\<open>spell_edit_score\<close> of the bad word and the entry's word, with \<open>SCORE_BIG\<close> in the place
    of an old score of \<open>SCORE_MAXMAX\<close>;
  \<^item> removes from each list the entries \<^verbatim>\<open>check_suggestions\<close> rejects, sorts it and
    truncates it to \<^verbatim>\<open>su_maxcount\<close>;
  \<^item> and leaves in \<^verbatim>\<open>su_ga\<close> the first \<^verbatim>\<open>su_maxcount\<close> entries of the two lists entwined
    one entry at a time and deduplicated by word; \<^verbatim>\<open>su_sga\<close> is left empty.
\<close>

theorem score_combine_double:
  assumes q: "qsort_sorts X sug_compare"
    and sl: "find (\<lambda>sl. sl_sal_len sl > 0) langs = Some slang"
    and grow: "grow_ok"
    and mc: "0 \<le> su_maxcount su"
  shows "(let badsound = spell_soundfold X slang (su_fbadword su) True;
              prim = (\<lambda>stp.
                 (let alt = stp_sal_score X stp su slang badsound in
                  stp\<lparr> st_altscore := alt,
                        st_score := c_div (st_score stp * 3
                                      + (if alt = SCORE_MAXMAX then SCORE_BIG else alt)) 4,
                        st_salscore := False \<rparr>));
              sec = (\<lambda>stp.
                 (let alt = spell_edit_score (enc X) (cnt_ok (st_word stp)) (Some slang)
                              (su_badword su) (st_word stp) in
                  stp\<lparr> st_altscore := alt,
                        st_score := c_div ((if st_score stp = SCORE_MAXMAX then SCORE_BIG
                                            else st_score stp) * 7 + alt) 8,
                        st_salscore := True \<rparr>));
              ga2 = fst (cleanup_suggestions X (check_suggestions X su (map prim (su_ga su)))
                           (su_maxscore su) (su_maxcount su));
              sga2 = fst (cleanup_suggestions X (check_suggestions X su (map sec (su_sga su)))
                            (su_maxscore su) (su_maxcount su));
              su' = score_combine X langs cnt_ok grow_ok su
          in su_ga su' = take (nat (su_maxcount su)) (dedup_by_word (entwine ga2 sga2))
             \<and> su_sga su' = []
             \<and> set ga2 \<subseteq> prim ` set (su_ga su) \<and> set sga2 \<subseteq> sec ` set (su_sga su)
             \<and> sorted_wrt in_suggest_order ga2 \<and> sorted_wrt in_suggest_order sga2
             \<and> int (length ga2) \<le> su_maxcount su \<and> int (length sga2) \<le> su_maxcount su
             \<and> distinct (map st_word (su_ga su'))
             \<and> int (length (su_ga su')) \<le> su_maxcount su)"
proof -
  define badsound where "badsound = spell_soundfold X slang (su_fbadword su) True"
  define prim where "prim = (\<lambda>stp::suggest_T.
                 (let alt = stp_sal_score X stp su slang badsound in
                  stp\<lparr> st_altscore := alt,
                        st_score := c_div (st_score stp * 3
                                      + (if alt = SCORE_MAXMAX then SCORE_BIG else alt)) 4,
                        st_salscore := False \<rparr>))"
  define sec where "sec = (\<lambda>stp::suggest_T.
                 (let alt = spell_edit_score (enc X) (cnt_ok (st_word stp)) (Some slang)
                              (su_badword su) (st_word stp) in
                  stp\<lparr> st_altscore := alt,
                        st_score := c_div ((if st_score stp = SCORE_MAXMAX then SCORE_BIG
                                            else st_score stp) * 7 + alt) 8,
                        st_salscore := True \<rparr>))"
  define ga2 where "ga2 = fst (cleanup_suggestions X
                           (check_suggestions X su (map prim (su_ga su)))
                           (su_maxscore su) (su_maxcount su))"
  define sga2 where "sga2 = fst (cleanup_suggestions X
                            (check_suggestions X su (map sec (su_sga su)))
                            (su_maxscore su) (su_maxcount su))"
  define su' where "su' = score_combine X langs cnt_ok grow_ok su"
  have p: "(\<lambda>stp::suggest_T.
              stp\<lparr> st_altscore := stp_sal_score X stp su slang badsound,
                    st_score := (if stp_sal_score X stp su slang badsound = SCORE_MAXMAX
                                 then c_div (st_score stp * 3 + SCORE_BIG) 4
                                 else c_div (st_score stp * 3
                                        + stp_sal_score X stp su slang badsound) 4),
                    st_salscore := False \<rparr>) = prim"
    unfolding prim_def by (intro ext) (simp add: Let_def)
  have s: "(\<lambda>stp::suggest_T.
              stp\<lparr> st_altscore := spell_edit_score (enc X) (cnt_ok (st_word stp)) (Some slang)
                                      (su_badword su) (st_word stp),
                    st_score := (if st_score stp = SCORE_MAXMAX
                                 then c_div (SCORE_BIG * 7
                                        + spell_edit_score (enc X) (cnt_ok (st_word stp))
                                            (Some slang) (su_badword su) (st_word stp)) 8
                                 else c_div (st_score stp * 7
                                        + spell_edit_score (enc X) (cnt_ok (st_word stp))
                                            (Some slang) (su_badword su) (st_word stp)) 8),
                    st_salscore := True \<rparr>) = sec"
    unfolding sec_def by (intro ext) (simp add: Let_def)
  have d: "foldl add_if_new [] (entwine ga2 sga2) = dedup_by_word (entwine ga2 sga2)"
    using add_if_new_dedup [of "[]" "entwine ga2 sga2"] by simp
  have tk: "\<And>xs. (if int (length xs) > su_maxcount su then take (nat (su_maxcount su)) xs
                   else xs) = take (nat (su_maxcount su)) xs"
    using mc by auto
  have r: "su' = su\<lparr> su_ga := take (nat (su_maxcount su)) (dedup_by_word (entwine ga2 sga2)),
                     su_sga := [] \<rparr>"
    unfolding su'_def score_combine_def sl option.case Let_def
    unfolding badsound_def [symmetric] p s
    unfolding ga2_def [symmetric] sga2_def [symmetric] d tk
    using grow by simp
  have g1: "su_ga su' = take (nat (su_maxcount su)) (dedup_by_word (entwine ga2 sga2))"
    and g2: "su_sga su' = []"
    unfolding r by simp_all
  have s1: "set ga2 \<subseteq> prim ` set (su_ga su)"
    using cleanup_suggestions_subset [OF q, of "check_suggestions X su (map prim (su_ga su))"
            "su_maxscore su" "su_maxcount su"]
    unfolding ga2_def check_suggestions_def by auto
  have s2: "set sga2 \<subseteq> sec ` set (su_sga su)"
    using cleanup_suggestions_subset [OF q, of "check_suggestions X su (map sec (su_sga su))"
            "su_maxscore su" "su_maxcount su"]
    unfolding sga2_def check_suggestions_def by auto
  have o1: "sorted_wrt in_suggest_order ga2"
    unfolding ga2_def using q by (rule cleanup_suggestions_sorted)
  have o2: "sorted_wrt in_suggest_order sga2"
    unfolding sga2_def using q by (rule cleanup_suggestions_sorted)
  have l1: "int (length ga2) \<le> su_maxcount su"
    unfolding ga2_def using q mc by (rule cleanup_suggestions_length)
  have l2: "int (length sga2) \<le> su_maxcount su"
    unfolding sga2_def using q mc by (rule cleanup_suggestions_length)
  have di: "distinct (map st_word (su_ga su'))"
    unfolding g1 take_map [symmetric]
    using distinct_dedup_by_word [of "entwine ga2 sga2"] by (rule distinct_take)
  have le: "int (length (su_ga su')) \<le> su_maxcount su"
    unfolding g1 using mc by simp
  have pf: "(\<lambda>stp::suggest_T.
              stp\<lparr> st_altscore := stp_sal_score X stp su slang badsound,
                    st_score := c_div (st_score stp * 3
                                  + (if stp_sal_score X stp su slang badsound = SCORE_MAXMAX
                                     then SCORE_BIG
                                     else stp_sal_score X stp su slang badsound)) 4,
                    st_salscore := False \<rparr>) = prim"
    unfolding prim_def by (intro ext) (simp add: Let_def)
  have sf: "(\<lambda>stp::suggest_T.
              stp\<lparr> st_altscore := spell_edit_score (enc X) (cnt_ok (st_word stp)) (Some slang)
                                      (su_badword su) (st_word stp),
                    st_score := c_div ((if st_score stp = SCORE_MAXMAX then SCORE_BIG
                                        else st_score stp) * 7
                                  + spell_edit_score (enc X) (cnt_ok (st_word stp))
                                      (Some slang) (su_badword su) (st_word stp)) 8,
                    st_salscore := True \<rparr>) = sec"
    unfolding sec_def by (intro ext) (simp add: Let_def)
  show ?thesis
    unfolding Let_def
    unfolding badsound_def [symmetric]
    unfolding pf sf
    unfolding ga2_def [symmetric] sga2_def [symmetric] su'_def [symmetric]
    using g1 g2 s1 s2 o1 o2 l1 l2 di le by simp
qed

theorem score_combine_double_witness:
  "qsort_sorts sample_extern sug_compare
   \<and> find (\<lambda>sl. sl_sal_len sl > 0) [sample_lang] = Some sample_lang
   \<and> 0 \<le> su_maxcount sample_double_info
   \<and> su_sga (score_combine sample_extern [sample_lang] (\<lambda>w. True) True sample_double_info) = []
   \<and> distinct (map st_word
        (su_ga (score_combine sample_extern [sample_lang] (\<lambda>w. True) True
                  sample_double_info)))
   \<and> int (length (su_ga (score_combine sample_extern [sample_lang] (\<lambda>w. True) True
                           sample_double_info))) \<le> 3"
proof -
  have sl: "find (\<lambda>sl. sl_sal_len sl > 0) [sample_lang] = Some sample_lang"
    by (simp add: sample_lang_def)
  have mc: "0 \<le> su_maxcount sample_double_info"
    by (simp add: sample_double_info_def sample_info_def)
  have m3: "su_maxcount sample_double_info = 3"
    by (simp add: sample_double_info_def sample_info_def)
  note T = score_combine_double [OF qsort_sorts_sample sl TrueI mc, where cnt_ok = "\<lambda>w. True"]
  have "su_sga (score_combine sample_extern [sample_lang] (\<lambda>w. True) True sample_double_info)
          = []
      \<and> distinct (map st_word
          (su_ga (score_combine sample_extern [sample_lang] (\<lambda>w. True) True
                    sample_double_info)))
      \<and> int (length (su_ga (score_combine sample_extern [sample_lang] (\<lambda>w. True) True
                           sample_double_info))) \<le> su_maxcount sample_double_info"
    using T unfolding Let_def by blast
  then show ?thesis using qsort_sorts_sample sl mc m3 by simp
qed

text \<open>
  The claim as stated fails for an entry whose soundalike score is \<open>SCORE_MAXMAX\<close>: for
  the bad word \<open>hte\<close> the entry \<open>theeeee\<close> with score 100 gets \<open>(3 * 100 + SCORE_BIG) / 4 =
  147\<close>, not \<open>(3 * 100 + 999999) / 4 = 250074\<close>.
\<close>

theorem score_combine_maxmax:
  "stp_sal_score sample_extern (sample_entry ''theeeee'' 3 100) sample_double_info sample_lang
       (spell_soundfold sample_extern sample_lang (su_fbadword sample_double_info) True)
     = 999999
   \<and> map (\<lambda>e. (st_word e, st_score e, st_altscore e))
        (su_ga (score_combine sample_extern [sample_lang] (\<lambda>w. True) True sample_double_info))
     = [(''the'', 67, 75), (''theeeee'', 147, 999999), (''tea'', 111, 190)]
   \<and> c_div (3 * 100 + 999999) 4 = 250074"
  by code_simp

subsection \<open>The order of the list spell_find_suggest leaves\<close>











subsection \<open>suggest_trie_walk: when the walk goes deeper\<close>

lemma w_depth_top: "w_stack w = fs @ [sp] \<Longrightarrow> w_depth w = int (length fs)"
  by (simp add: w_depth_def)

lemma set_frame_top:
  "w_stack w = fs @ [sp] \<Longrightarrow> set_frame w (int (length fs)) f = w\<lparr> w_stack := fs @ [f sp] \<rparr>"
  by (simp add: set_frame_def)

lemma set_state_top:
  "w_stack w = fs @ [sp]
     \<Longrightarrow> set_state w (int (length fs)) s = w\<lparr> w_stack := fs @ [sp\<lparr> ts_state := s \<rparr>] \<rparr>"
  by (simp add: set_state_def set_frame_def)

lemma go_deeper_top:
  "w_stack w = fs @ [sp]
     \<Longrightarrow> go_deeper w add
         = w\<lparr> w_stack := fs @ [sp, sp\<lparr> ts_state := STATE_START, ts_score := ts_score sp + add \<rparr>] \<rparr>"
  by (simp add: go_deeper_def)

lemma set_frame_parent:
  "w_stack w = fs @ [sp, c]
     \<Longrightarrow> set_frame w (int (length fs)) f = w\<lparr> w_stack := fs @ [f sp, c] \<rparr>"
  by (simp add: set_frame_def)

lemma set_state_parent:
  "w_stack w = fs @ [sp, c]
     \<Longrightarrow> set_state w (int (length fs)) s = w\<lparr> w_stack := fs @ [sp\<lparr> ts_state := s \<rparr>, c] \<rparr>"
  by (simp add: set_state_def set_frame_def)

lemma set_frame_child:
  "w_stack w = fs @ [sp, c]
     \<Longrightarrow> set_frame w (int (length fs) + 1) f = w\<lparr> w_stack := fs @ [sp, f c] \<rparr>"
proof -
  assume a: "w_stack w = fs @ [sp, c]"
  have n: "nat (int (length fs) + 1) = Suc (length fs)" by simp
  have "(fs @ [sp, c]) ! Suc (length fs) = c"
    by (simp add: nth_append)
  moreover have "(fs @ [sp, c]) [Suc (length fs) := f c] = fs @ [sp, f c]"
    by (simp add: list_update_append)
  ultimately show ?thesis unfolding set_frame_def n a by simp
qed

lemma TRY_DEEPER_top:
  "w_stack w = fs @ [sp]
     \<Longrightarrow> TRY_DEEPER X w add
         = (int (length fs) < MAXWLEN X - 1 \<and> ts_score sp + add < w_maxscore w)"
  by (simp add: TRY_DEEPER_def w_depth_def)

lemmas walk_top = w_depth_top set_frame_top set_state_top go_deeper_top TRY_DEEPER_top

lemma try_change_top:
  "w_stack w = fs @ [sp]
     \<Longrightarrow> try_change X w cost undo otherwise
         = (if int (length fs) < MAXWLEN X - 1 \<and> ts_score sp + cost < w_maxscore w
            then (PUSHED cost,
                  w\<lparr> w_stack := fs @ [sp\<lparr> ts_state := undo \<rparr>,
                                      sp\<lparr> ts_state := STATE_START,
                                          ts_score := ts_score sp + cost \<rparr>] \<rparr>)
            else (STAYED, w\<lparr> w_stack := fs @ [sp\<lparr> ts_state := otherwise \<rparr>] \<rparr>))"
proof -
  assume a: "w_stack w = fs @ [sp]"
  have g: "w_stack (go_deeper w cost)
             = fs @ [sp, sp\<lparr> ts_state := STATE_START, ts_score := ts_score sp + cost \<rparr>]"
    using a by (simp add: go_deeper_top)
  show ?thesis
    unfolding try_change_def w_depth_top [OF a] set_state_parent [OF g]
      set_state_top [OF a] TRY_DEEPER_top [OF a]
    by (simp add: go_deeper_top [OF a])
qed

lemma nat_int_Suc: "nat (int n + 1) = Suc n"
  by simp

lemma bonus_amount_nonneg: "0 \<le> bonus_amount b"
  by (cases b)
     (simp_all add: SCORE_SUBST_def SCORE_SUBCOMP_def SCORE_SIMILAR_def SCORE_INS_def
        SCORE_INSCOMP_def SCORE_INSDUP_def SCORE_DEL_def SCORE_DELCOMP_def SCORE_DELDUP_def)

lemmas walk_defs = w_depth_def set_state_def set_frame_def go_deeper_def TRY_DEEPER_def
  nat_int_Suc nth_append list_update_append Let_def

lemma turn_START_ok:
  "ts_state sp = STATE_START \<or> ts_state sp = STATE_NOPREFIX
     \<Longrightarrow> turn_ok X fs sp ms
           (turn_START X env t \<lparr> w_stack = fs @ [sp], w_maxscore = ms, w_got_int = gi \<rparr>)"
  by (auto simp: turn_ok_def turn_START_def walk_defs fresh_prefix_def SCORE_SPLIT_def
        SCORE_SUBST_def split: if_splits)

lemma turn_PLAIN_ok:
  "turn_ok X fs sp ms
     (turn_PLAIN X env t \<lparr> w_stack = fs @ [sp], w_maxscore = ms, w_got_int = gi \<rparr>)"
  using bonus_amount_nonneg [of "bonus t"]
  by (auto simp: turn_ok_def turn_PLAIN_def walk_defs split: if_splits)

lemma turn_ENDNUL_ok:
  "turn_ok X fs sp ms
     (turn_ENDNUL X env t \<lparr> w_stack = fs @ [sp], w_maxscore = ms, w_got_int = gi \<rparr>)"
proof (cases "fword_nul t \<and> \<not> in_tchar t")
  case True
  then show ?thesis by (simp add: turn_ok_def turn_ENDNUL_def walk_defs)
next
  case False
  have "turn_ok X fs (sp\<lparr> ts_state := STATE_PLAIN \<rparr>) ms
          (turn_PLAIN X env t
             \<lparr> w_stack = fs @ [sp\<lparr> ts_state := STATE_PLAIN \<rparr>], w_maxscore = ms,
               w_got_int = gi \<rparr>)"
    by (rule turn_PLAIN_ok)
  then show ?thesis
    using False
    by (auto simp: turn_ok_def turn_ENDNUL_def walk_defs fresh_prefix_def
          split: outcome.splits)
qed

lemma turn_INS_PREP_ok:
  "turn_ok X fs sp ms
     (turn_INS_PREP t \<lparr> w_stack = fs @ [sp], w_maxscore = ms, w_got_int = gi \<rparr>)"
  by (simp add: turn_ok_def turn_INS_PREP_def walk_defs)

lemma turn_DEL_ok:
  "turn_ok X fs sp ms
     (turn_DEL X env t \<lparr> w_stack = fs @ [sp], w_maxscore = ms, w_got_int = gi \<rparr>)"
  using bonus_amount_nonneg [of "bonus t"]
  by (auto simp: turn_ok_def turn_DEL_def turn_INS_PREP_def walk_defs split: if_splits)

lemma turn_INS_ok:
  "turn_ok X fs sp ms
     (turn_INS X env t \<lparr> w_stack = fs @ [sp], w_maxscore = ms, w_got_int = gi \<rparr>)"
  using bonus_amount_nonneg [of "bonus t"]
  by (auto simp: turn_ok_def turn_INS_def walk_defs split: if_splits)

lemma try_change_ok:
  "turn_ok X fs sp ms
     (try_change X \<lparr> w_stack = fs @ [sp], w_maxscore = ms, w_got_int = gi \<rparr> cost undo
        otherwise)"
  by (simp add: turn_ok_def try_change_top)

lemma turn_SWAP_ok:
  "turn_ok X fs sp ms
     (turn_SWAP X env t \<lparr> w_stack = fs @ [sp], w_maxscore = ms, w_got_int = gi \<rparr>)"
  using try_change_ok [of X fs sp ms gi SCORE_SWAP STATE_UNSWAP STATE_REP_INI]
  by (simp add: turn_SWAP_def Let_def) (simp add: turn_ok_def walk_defs)

lemma turn_SWAP3_ok:
  "turn_ok X fs sp ms
     (turn_SWAP3 X env t \<lparr> w_stack = fs @ [sp], w_maxscore = ms, w_got_int = gi \<rparr>)"
  using try_change_ok [of X fs sp ms gi SCORE_SWAP3 STATE_UNSWAP3 STATE_REP_INI]
  by (simp add: turn_SWAP3_def Let_def) (simp add: turn_ok_def walk_defs)

lemma turn_UNSWAP3_ok:
  "turn_ok X fs sp ms
     (turn_UNSWAP3 X env t \<lparr> w_stack = fs @ [sp], w_maxscore = ms, w_got_int = gi \<rparr>)"
  using try_change_ok [of X fs sp ms gi SCORE_SWAP3 STATE_UNROT3L STATE_REP_INI]
  by (simp add: turn_UNSWAP3_def Let_def) (simp add: turn_ok_def walk_defs)

lemma turn_REP_ok:
  "turn_ok X fs sp ms
     (turn_REP X env t \<lparr> w_stack = fs @ [sp], w_maxscore = ms, w_got_int = gi \<rparr>)"
  using try_change_ok [of X fs sp ms gi SCORE_REP STATE_REP_UNDO STATE_FINAL]
  by (simp add: turn_REP_def Let_def) (simp add: turn_ok_def walk_defs)

lemma turn_REP_INI_ok:
  "turn_ok X fs sp ms
     (turn_REP_INI X env t \<lparr> w_stack = fs @ [sp], w_maxscore = ms, w_got_int = gi \<rparr>)"
proof -
  have "turn_ok X fs (sp\<lparr> ts_state := STATE_REP \<rparr>) ms
          (turn_REP X env t
             \<lparr> w_stack = fs @ [sp\<lparr> ts_state := STATE_REP \<rparr>], w_maxscore = ms,
               w_got_int = gi \<rparr>)"
    by (rule turn_REP_ok)
  then show ?thesis
    by (auto simp: turn_ok_def turn_REP_INI_def walk_defs fresh_prefix_def
          split: outcome.splits)
qed

lemma trie_turn_ok:
  "turn_ok X fs sp ms
     (trie_turn X env t \<lparr> w_stack = fs @ [sp], w_maxscore = ms, w_got_int = gi \<rparr>)"
proof (cases "ts_state sp")
  case STATE_START
  then show ?thesis using turn_START_ok [of sp X fs ms env t gi] by (simp add: trie_turn_def)
next
  case STATE_NOPREFIX
  then show ?thesis using turn_START_ok [of sp X fs ms env t gi] by (simp add: trie_turn_def)
next
  case STATE_SPLITUNDO
  then show ?thesis by (simp add: trie_turn_def turn_ok_def walk_defs)
next
  case STATE_ENDNUL
  then show ?thesis using turn_ENDNUL_ok [of X fs sp ms env t gi] by (simp add: trie_turn_def)
next
  case STATE_PLAIN
  then show ?thesis using turn_PLAIN_ok [of X fs sp ms env t gi] by (simp add: trie_turn_def)
next
  case STATE_DEL
  then show ?thesis using turn_DEL_ok [of X fs sp ms env t gi] by (simp add: trie_turn_def)
next
  case STATE_INS_PREP
  then show ?thesis using turn_INS_PREP_ok [of X fs sp ms t gi] by (simp add: trie_turn_def)
next
  case STATE_INS
  then show ?thesis using turn_INS_ok [of X fs sp ms env t gi] by (simp add: trie_turn_def)
next
  case STATE_SWAP
  then show ?thesis using turn_SWAP_ok [of X fs sp ms env t gi] by (simp add: trie_turn_def)
next
  case STATE_UNSWAP
  then show ?thesis using turn_SWAP3_ok [of X fs sp ms env t gi] by (simp add: trie_turn_def)
next
  case STATE_SWAP3
  then show ?thesis using turn_SWAP3_ok [of X fs sp ms env t gi] by (simp add: trie_turn_def)
next
  case STATE_UNSWAP3
  then show ?thesis using turn_UNSWAP3_ok [of X fs sp ms env t gi] by (simp add: trie_turn_def)
next
  case STATE_UNROT3L
  then show ?thesis
    using try_change_ok [of X fs sp ms gi SCORE_SWAP3 STATE_UNROT3R STATE_REP_INI]
    by (simp add: trie_turn_def)
next
  case STATE_UNROT3R
  then show ?thesis using turn_REP_INI_ok [of X fs sp ms env t gi] by (simp add: trie_turn_def)
next
  case STATE_REP_INI
  then show ?thesis using turn_REP_INI_ok [of X fs sp ms env t gi] by (simp add: trie_turn_def)
next
  case STATE_REP
  then show ?thesis using turn_REP_ok [of X fs sp ms env t gi] by (simp add: trie_turn_def)
next
  case STATE_REP_UNDO
  then show ?thesis by (simp add: trie_turn_def turn_ok_def walk_defs)
next
  case STATE_FINAL
  then show ?thesis by (simp add: trie_turn_def turn_ok_def)
qed

lemma butlast_two: "butlast (fs @ [a, b]) = fs @ [a]"
  by (simp add: butlast_append)

lemmas inv_defs = walk_inv_def fresh_prefix_def frame_ok_def PFD_PREFIXTREE_def PFD_NOPREFIX_def
  butlast_two

lemma turn_START_inv:
  assumes "walk_inv \<lparr> w_stack = fs @ [sp], w_maxscore = ms, w_got_int = gi \<rparr>"
    and "MAXWLEN X \<le> 254"
    and "ts_state sp = STATE_START \<or> ts_state sp = STATE_NOPREFIX"
  shows "walk_inv (snd (turn_START X env t
                          \<lparr> w_stack = fs @ [sp], w_maxscore = ms, w_got_int = gi \<rparr>))"
  using assms
  by (auto simp: turn_START_def walk_defs inv_defs SCORE_SPLIT_def SCORE_SUBST_def
        split: if_splits)

lemma turn_PLAIN_inv:
  assumes "walk_inv \<lparr> w_stack = fs @ [sp], w_maxscore = ms, w_got_int = gi \<rparr>"
    and "ts_state sp = STATE_PLAIN"
  shows "walk_inv (snd (turn_PLAIN X env t
                          \<lparr> w_stack = fs @ [sp], w_maxscore = ms, w_got_int = gi \<rparr>))"
  using assms bonus_amount_nonneg [of "bonus t"]
  by (auto simp: turn_PLAIN_def walk_defs inv_defs split: if_splits)

lemma turn_INS_PREP_inv:
  assumes "walk_inv \<lparr> w_stack = fs @ [sp], w_maxscore = ms, w_got_int = gi \<rparr>"
  shows "walk_inv (snd (turn_INS_PREP t
                          \<lparr> w_stack = fs @ [sp], w_maxscore = ms, w_got_int = gi \<rparr>))"
  using assms by (auto simp: turn_INS_PREP_def walk_defs inv_defs split: if_splits)

lemma turn_DEL_inv:
  assumes "walk_inv \<lparr> w_stack = fs @ [sp], w_maxscore = ms, w_got_int = gi \<rparr>"
    and "ts_state sp = STATE_DEL"
  shows "walk_inv (snd (turn_DEL X env t
                          \<lparr> w_stack = fs @ [sp], w_maxscore = ms, w_got_int = gi \<rparr>))"
  using assms bonus_amount_nonneg [of "bonus t"]
  by (auto simp: turn_DEL_def turn_INS_PREP_def walk_defs inv_defs split: if_splits)

lemma turn_INS_inv:
  assumes "walk_inv \<lparr> w_stack = fs @ [sp], w_maxscore = ms, w_got_int = gi \<rparr>"
    and "ts_state sp = STATE_INS"
  shows "walk_inv (snd (turn_INS X env t
                          \<lparr> w_stack = fs @ [sp], w_maxscore = ms, w_got_int = gi \<rparr>))"
  using assms bonus_amount_nonneg [of "bonus t"]
  by (auto simp: turn_INS_def walk_defs inv_defs split: if_splits)

lemma try_change_inv:
  assumes "walk_inv \<lparr> w_stack = fs @ [sp], w_maxscore = ms, w_got_int = gi \<rparr>"
    and "ts_state sp \<noteq> STATE_START" and "ts_state sp \<noteq> STATE_NOPREFIX"
    and "undo \<noteq> STATE_START" and "undo \<noteq> STATE_NOPREFIX" and "undo \<noteq> STATE_SPLITUNDO"
    and "otherwise \<noteq> STATE_START" and "otherwise \<noteq> STATE_NOPREFIX"
    and "otherwise \<noteq> STATE_SPLITUNDO"
  shows "walk_inv (snd (try_change X
                          \<lparr> w_stack = fs @ [sp], w_maxscore = ms, w_got_int = gi \<rparr>
                          cost undo otherwise))"
  using assms by (auto simp: try_change_top inv_defs split: if_splits)

lemma turn_ENDNUL_inv:
  assumes "walk_inv \<lparr> w_stack = fs @ [sp], w_maxscore = ms, w_got_int = gi \<rparr>"
    and "ts_state sp = STATE_ENDNUL"
  shows "walk_inv (snd (turn_ENDNUL X env t
                          \<lparr> w_stack = fs @ [sp], w_maxscore = ms, w_got_int = gi \<rparr>))"
proof (cases "fword_nul t \<and> \<not> in_tchar t")
  case True
  then show ?thesis using assms by (auto simp: turn_ENDNUL_def walk_defs inv_defs)
next
  case False
  have "walk_inv \<lparr> w_stack = fs @ [sp\<lparr> ts_state := STATE_PLAIN \<rparr>], w_maxscore = ms,
                   w_got_int = gi \<rparr>"
    using assms by (auto simp: inv_defs)
  then have "walk_inv (snd (turn_PLAIN X env t
               \<lparr> w_stack = fs @ [sp\<lparr> ts_state := STATE_PLAIN \<rparr>], w_maxscore = ms,
                 w_got_int = gi \<rparr>))"
    by (rule turn_PLAIN_inv) simp
  then show ?thesis using False by (auto simp: turn_ENDNUL_def walk_defs)
qed

lemma turn_SWAP_inv:
  assumes "walk_inv \<lparr> w_stack = fs @ [sp], w_maxscore = ms, w_got_int = gi \<rparr>"
    and "ts_state sp = STATE_SWAP"
  shows "walk_inv (snd (turn_SWAP X env t
                          \<lparr> w_stack = fs @ [sp], w_maxscore = ms, w_got_int = gi \<rparr>))"
  using assms
    try_change_inv [of fs sp ms gi STATE_UNSWAP STATE_REP_INI X SCORE_SWAP]
  by (auto simp: turn_SWAP_def Let_def) (auto simp: walk_defs inv_defs)

lemma turn_SWAP3_inv:
  assumes "walk_inv \<lparr> w_stack = fs @ [sp], w_maxscore = ms, w_got_int = gi \<rparr>"
    and "ts_state sp = STATE_SWAP3 \<or> ts_state sp = STATE_UNSWAP"
  shows "walk_inv (snd (turn_SWAP3 X env t
                          \<lparr> w_stack = fs @ [sp], w_maxscore = ms, w_got_int = gi \<rparr>))"
  using assms
    try_change_inv [of fs sp ms gi STATE_UNSWAP3 STATE_REP_INI X SCORE_SWAP3]
  by (auto simp: turn_SWAP3_def Let_def) (auto simp: walk_defs inv_defs)

lemma turn_UNSWAP3_inv:
  assumes "walk_inv \<lparr> w_stack = fs @ [sp], w_maxscore = ms, w_got_int = gi \<rparr>"
    and "ts_state sp = STATE_UNSWAP3"
  shows "walk_inv (snd (turn_UNSWAP3 X env t
                          \<lparr> w_stack = fs @ [sp], w_maxscore = ms, w_got_int = gi \<rparr>))"
  using assms
    try_change_inv [of fs sp ms gi STATE_UNROT3L STATE_REP_INI X SCORE_SWAP3]
  by (auto simp: turn_UNSWAP3_def Let_def) (auto simp: walk_defs inv_defs)

lemma turn_REP_inv:
  assumes "walk_inv \<lparr> w_stack = fs @ [sp], w_maxscore = ms, w_got_int = gi \<rparr>"
    and "ts_state sp = STATE_REP"
  shows "walk_inv (snd (turn_REP X env t
                          \<lparr> w_stack = fs @ [sp], w_maxscore = ms, w_got_int = gi \<rparr>))"
  using assms
    try_change_inv [of fs sp ms gi STATE_REP_UNDO STATE_FINAL X SCORE_REP]
  by (auto simp: turn_REP_def Let_def) (auto simp: walk_defs inv_defs)

lemma turn_REP_INI_inv:
  assumes "walk_inv \<lparr> w_stack = fs @ [sp], w_maxscore = ms, w_got_int = gi \<rparr>"
    and "ts_state sp = STATE_REP_INI \<or> ts_state sp = STATE_UNROT3R"
  shows "walk_inv (snd (turn_REP_INI X env t
                          \<lparr> w_stack = fs @ [sp], w_maxscore = ms, w_got_int = gi \<rparr>))"
proof -
  have "walk_inv \<lparr> w_stack = fs @ [sp\<lparr> ts_state := STATE_REP \<rparr>], w_maxscore = ms,
                   w_got_int = gi \<rparr>"
    using assms by (auto simp: inv_defs)
  then have "walk_inv (snd (turn_REP X env t
               \<lparr> w_stack = fs @ [sp\<lparr> ts_state := STATE_REP \<rparr>], w_maxscore = ms,
                 w_got_int = gi \<rparr>))"
    by (rule turn_REP_inv) simp
  then show ?thesis using assms by (auto simp: turn_REP_INI_def walk_defs inv_defs)
qed

lemma trie_turn_inv:
  assumes i: "walk_inv \<lparr> w_stack = fs @ [sp], w_maxscore = ms, w_got_int = gi \<rparr>"
    and m: "MAXWLEN X \<le> 254"
  shows "walk_inv (snd (trie_turn X env t
                          \<lparr> w_stack = fs @ [sp], w_maxscore = ms, w_got_int = gi \<rparr>))"
proof (cases "ts_state sp")
  case STATE_START
  then show ?thesis using turn_START_inv [OF i m, of env t] by (simp add: trie_turn_def)
next
  case STATE_NOPREFIX
  then show ?thesis using turn_START_inv [OF i m, of env t] by (simp add: trie_turn_def)
next
  case STATE_SPLITUNDO
  then show ?thesis using i by (auto simp: trie_turn_def walk_defs inv_defs)
next
  case STATE_ENDNUL
  then show ?thesis using turn_ENDNUL_inv [OF i, of X env t] by (simp add: trie_turn_def)
next
  case STATE_PLAIN
  then show ?thesis using turn_PLAIN_inv [OF i, of X env t] by (simp add: trie_turn_def)
next
  case STATE_DEL
  then show ?thesis using turn_DEL_inv [OF i, of X env t] by (simp add: trie_turn_def)
next
  case STATE_INS_PREP
  then show ?thesis using turn_INS_PREP_inv [OF i, of t] by (simp add: trie_turn_def)
next
  case STATE_INS
  then show ?thesis using turn_INS_inv [OF i, of X env t] by (simp add: trie_turn_def)
next
  case STATE_SWAP
  then show ?thesis using turn_SWAP_inv [OF i, of X env t] by (simp add: trie_turn_def)
next
  case STATE_UNSWAP
  then show ?thesis using turn_SWAP3_inv [OF i, of X env t] by (simp add: trie_turn_def)
next
  case STATE_SWAP3
  then show ?thesis using turn_SWAP3_inv [OF i, of X env t] by (simp add: trie_turn_def)
next
  case STATE_UNSWAP3
  then show ?thesis using turn_UNSWAP3_inv [OF i, of X env t] by (simp add: trie_turn_def)
next
  case STATE_UNROT3L
  then show ?thesis
    using try_change_inv [OF i, of STATE_UNROT3R STATE_REP_INI X SCORE_SWAP3]
    by (simp add: trie_turn_def)
next
  case STATE_UNROT3R
  then show ?thesis using turn_REP_INI_inv [OF i, of X env t] by (simp add: trie_turn_def)
next
  case STATE_REP_INI
  then show ?thesis using turn_REP_INI_inv [OF i, of X env t] by (simp add: trie_turn_def)
next
  case STATE_REP
  then show ?thesis using turn_REP_inv [OF i, of X env t] by (simp add: trie_turn_def)
next
  case STATE_REP_UNDO
  then show ?thesis using i by (auto simp: trie_turn_def walk_defs inv_defs)
next
  case STATE_FINAL
  then show ?thesis using i
    by (cases fs rule: rev_cases) (auto simp: trie_turn_def inv_defs)
qed

lemma walk_shape:
  assumes "w_stack w \<noteq> []"
  obtains fs sp ms gi where "w = \<lparr> w_stack = fs @ [sp], w_maxscore = ms, w_got_int = gi \<rparr>"
proof -
  obtain fs sp where "w_stack w = fs @ [sp]"
    using assms by (cases "w_stack w" rule: rev_cases) auto
  then have "w = \<lparr> w_stack = fs @ [sp], w_maxscore = w_maxscore w, w_got_int = w_got_int w \<rparr>"
    by (cases w) simp
  then show ?thesis using that by blast
qed

lemma trie_turn_length:
  assumes "w_stack w \<noteq> []" and "int (length (w_stack w)) \<le> MAXWLEN X"
  shows "int (length (w_stack (snd (trie_turn X env t w)))) \<le> MAXWLEN X"
proof -
  obtain fs sp ms gi where w: "w = \<lparr> w_stack = fs @ [sp], w_maxscore = ms, w_got_int = gi \<rparr>"
    using assms(1) by (rule walk_shape)
  show ?thesis
    using trie_turn_ok [of X fs sp ms env t gi] assms(2) unfolding w
    by (auto simp: turn_ok_def split: outcome.splits)
qed

lemma suggest_trie_walk_length:
  "int (length (w_stack w)) \<le> MAXWLEN X
     \<Longrightarrow> int (length (w_stack (suggest_trie_walk X env ts w))) \<le> MAXWLEN X"
proof (induction ts arbitrary: w)
  case Nil
  then show ?case by simp
next
  case (Cons t ts)
  show ?case
  proof (cases "w_stack w = [] \<or> w_got_int w")
    case True
    then show ?thesis using Cons.prems by auto
  next
    case False
    then have "int (length (w_stack (snd (trie_turn X env t w)))) \<le> MAXWLEN X"
      using trie_turn_length [of w X env t] Cons.prems by simp
    then show ?thesis using Cons.IH [of "snd (trie_turn X env t w)"] False by simp
  qed
qed

lemma suggest_trie_walk_inv:
  "MAXWLEN X \<le> 254 \<Longrightarrow> walk_inv w \<Longrightarrow> walk_inv (suggest_trie_walk X env ts w)"
proof (induction ts arbitrary: w)
  case Nil
  then show ?case by simp
next
  case (Cons t ts)
  show ?case
  proof (cases "w_stack w = [] \<or> w_got_int w")
    case True
    then show ?thesis using Cons.prems by auto
  next
    case False
    then obtain fs sp ms gi
      where w: "w = \<lparr> w_stack = fs @ [sp], w_maxscore = ms, w_got_int = gi \<rparr>"
      using walk_shape [of w] by blast
    have "walk_inv (snd (trie_turn X env t w))"
      using trie_turn_inv [of fs sp ms gi X env t] Cons.prems unfolding w by simp
    then show ?thesis using Cons.IH [OF Cons.prems(1)] False by simp
  qed
qed

lemma walk_start_inv: "0 < su_maxscore0 \<Longrightarrow> walk_inv (walk_start env su_maxscore0 got_int0)"
  by (simp add: walk_start_def inv_defs)

text \<open>
  Claim C2, as the code has it. Throughout a walk (\<open>MAXWLEN\<close> being at least 1) the
  depth stays below \<open>MAXWLEN\<close>, and a turn of the loop on the state reached
  \<^item> goes deeper only from a depth below \<open>MAXWLEN - 1\<close>, and to the next depth;
  \<^item> goes deeper only when the score of the current frame plus the cost is below
    \<^verbatim>\<open>su_maxscore\<close>, or when the current frame is in the prefix tree in \<^verbatim>\<open>STATE_START\<close> or
    \<^verbatim>\<open>STATE_NOPREFIX\<close> and the cost is 0: the turn that leaves the prefix tree tests the
    depth only;
  \<^item> and in a walk that starts with \<^verbatim>\<open>su_maxscore\<close> above 0 (and a \<open>MAXWLEN\<close> of at most 254,
    so that no depth is \<^verbatim>\<open>PFD_PREFIXTREE\<close>) the score plus the cost is below \<^verbatim>\<open>su_maxscore\<close>
    at that turn too.
\<close>

theorem suggest_trie_walk_goes_deeper:
  assumes m: "1 \<le> MAXWLEN X"
    and r: "w = suggest_trie_walk X env ts (walk_start env su_maxscore0 got_int0)"
    and ne: "w_stack w \<noteq> []"
  shows "w_depth w < MAXWLEN X
    \<and> (case fst (trie_turn X env t w) of
          PUSHED add \<Rightarrow>
            w_depth w < MAXWLEN X - 1
            \<and> w_depth (snd (trie_turn X env t w)) = w_depth w + 1
            \<and> (ts_score (last (w_stack w)) + add < w_maxscore (snd (trie_turn X env t w))
                \<or> (add = 0 \<and> ts_prefixdepth (last (w_stack w)) = PFD_PREFIXTREE
                    \<and> (ts_state (last (w_stack w)) = STATE_START
                        \<or> ts_state (last (w_stack w)) = STATE_NOPREFIX)))
            \<and> (0 < su_maxscore0 \<and> MAXWLEN X \<le> 254
                  \<longrightarrow> ts_score (last (w_stack w)) + add
                        < w_maxscore (snd (trie_turn X env t w)))
        | POPPED \<Rightarrow> w_depth (snd (trie_turn X env t w)) = w_depth w - 1
        | STAYED \<Rightarrow> w_depth (snd (trie_turn X env t w)) = w_depth w)"
proof -
  obtain fs sp ms gi where w: "w = \<lparr> w_stack = fs @ [sp], w_maxscore = ms, w_got_int = gi \<rparr>"
    using ne by (rule walk_shape)
  have "int (length (w_stack (walk_start env su_maxscore0 got_int0))) \<le> MAXWLEN X"
    using m by (simp add: walk_start_def)
  then have "int (length (w_stack w)) \<le> MAXWLEN X"
    unfolding r by (rule suggest_trie_walk_length)
  then have d: "w_depth w < MAXWLEN X" by (simp add: w_depth_def)
  have ok: "turn_ok X fs sp ms (trie_turn X env t w)"
    unfolding w by (rule trie_turn_ok)
  have inv: "0 < su_maxscore0 \<and> MAXWLEN X \<le> 254 \<Longrightarrow> walk_inv w"
    unfolding r using suggest_trie_walk_inv walk_start_inv by blast
  have fr: "0 < su_maxscore0 \<and> MAXWLEN X \<le> 254 \<Longrightarrow> fresh_prefix sp \<Longrightarrow> ts_score sp < ms"
    using inv unfolding w by (simp add: walk_inv_def)
  have l: "last (w_stack w) = sp" "w_depth w = int (length fs)" "w_maxscore w = ms"
    unfolding w by (simp_all add: w_depth_def)
  show ?thesis
  proof (cases "fst (trie_turn X env t w)")
    case (PUSHED add)
    then show ?thesis
      using ok d fr unfolding l
      by (auto simp: turn_ok_def w_depth_def fresh_prefix_def)
  next
    case POPPED
    then show ?thesis using ok d unfolding l by (auto simp: turn_ok_def w_depth_def)
  next
    case STAYED
    then show ?thesis using ok d unfolding l by (auto simp: turn_ok_def w_depth_def)
  qed
qed

lemma sample_walk_one_turn:
  "suggest_trie_walk sample_extern sample_env [sample_turn] (walk_start sample_env 350 False)
     = \<lparr> w_stack = [\<lparr> ts_state = STATE_ENDNUL, ts_score = 0, ts_prefixdepth = 254 \<rparr>,
                    \<lparr> ts_state = STATE_START, ts_score = 0, ts_prefixdepth = 0 \<rparr>],
         w_maxscore = 350, w_got_int = False \<rparr>"
  by (simp add: walk_start_def sample_env_def pbyts_set_def trie_turn_def turn_START_def
        sample_turn_def sample_extern_def walk_defs PFD_PREFIXTREE_def)

theorem suggest_trie_walk_goes_deeper_witness:
  "1 \<le> MAXWLEN sample_extern
   \<and> w_stack (suggest_trie_walk sample_extern sample_env [sample_turn]
                (walk_start sample_env 350 False)) \<noteq> []
   \<and> fst (trie_turn sample_extern sample_env
            (sample_turn\<lparr> new_maxscore := 300, tries_split := True, split_newscore := 149 \<rparr>)
            (suggest_trie_walk sample_extern sample_env [sample_turn]
               (walk_start sample_env 350 False))) = PUSHED 149
   \<and> w_depth (suggest_trie_walk sample_extern sample_env [sample_turn]
                (walk_start sample_env 350 False)) = 1
   \<and> w_depth (snd (trie_turn sample_extern sample_env
            (sample_turn\<lparr> new_maxscore := 300, tries_split := True, split_newscore := 149 \<rparr>)
            (suggest_trie_walk sample_extern sample_env [sample_turn]
               (walk_start sample_env 350 False)))) = 2
   \<and> ts_score (last (w_stack (suggest_trie_walk sample_extern sample_env [sample_turn]
                (walk_start sample_env 350 False)))) + 149
       < w_maxscore (snd (trie_turn sample_extern sample_env
            (sample_turn\<lparr> new_maxscore := 300, tries_split := True, split_newscore := 149 \<rparr>)
            (suggest_trie_walk sample_extern sample_env [sample_turn]
               (walk_start sample_env 350 False))))"
proof -
  let ?w = "suggest_trie_walk sample_extern sample_env [sample_turn]
              (walk_start sample_env 350 False)"
  let ?t = "sample_turn\<lparr> new_maxscore := 300, tries_split := True, split_newscore := 149 \<rparr>"
  have m: "1 \<le> MAXWLEN sample_extern" by (simp add: sample_extern_def)
  have ne: "w_stack ?w \<noteq> []" unfolding sample_walk_one_turn by simp
  have d: "w_depth ?w = 1" unfolding sample_walk_one_turn by (simp add: w_depth_def)
  have p: "fst (trie_turn sample_extern sample_env ?t ?w) = PUSHED 149"
    unfolding sample_walk_one_turn
    by (simp add: trie_turn_def turn_START_def sample_turn_def sample_extern_def walk_defs
          PFD_PREFIXTREE_def)
  have big: "(0::int) < 350 \<and> MAXWLEN sample_extern \<le> 254" by (simp add: sample_extern_def)
  note T = suggest_trie_walk_goes_deeper [OF m refl ne, of ?t]
  have "w_depth (snd (trie_turn sample_extern sample_env ?t ?w)) = w_depth ?w + 1
      \<and> ts_score (last (w_stack ?w)) + 149
          < w_maxscore (snd (trie_turn sample_extern sample_env ?t ?w))"
    using T big unfolding p by simp
  then show ?thesis using m ne d p by simp
qed

text \<open>
  The claim as stated fails at the turn that leaves the prefix tree: in a walk that
  starts with \<^verbatim>\<open>su_maxscore\<close> 0 for a language with postponed prefixes, the first turn goes
  deeper with the cost 0 although the score 0 of its frame is not below \<^verbatim>\<open>su_maxscore\<close>.
\<close>

theorem suggest_trie_walk_prefix_push:
  "suggest_trie_walk sample_extern sample_env [] (walk_start sample_env 0 False)
     = walk_start sample_env 0 False
   \<and> trie_turn sample_extern sample_env sample_turn (walk_start sample_env 0 False)
     = (PUSHED 0,
        \<lparr> w_stack = [\<lparr> ts_state = STATE_ENDNUL, ts_score = 0, ts_prefixdepth = 254 \<rparr>,
                     \<lparr> ts_state = STATE_START, ts_score = 0, ts_prefixdepth = 0 \<rparr>],
          w_maxscore = 0, w_got_int = False \<rparr>)
   \<and> \<not> ts_score (last (w_stack (walk_start sample_env 0 False))) + 0
         < w_maxscore (walk_start sample_env 0 False)"
  by (simp add: walk_start_def sample_env_def pbyts_set_def trie_turn_def turn_START_def
        sample_turn_def sample_extern_def walk_defs PFD_PREFIXTREE_def)

subsection \<open>Edit scripts and their lowest score\<close>



lemma al_cost: "al E slang x y c \<Longrightarrow> c = c' \<Longrightarrow> al E slang x y c'"
  by simp































subsection \<open>spell_edit_score computes the lowest score of an edit script\<close>





subsection \<open>spell_edit_score_limit finds the lowest score below its limit\<close>

































end
